theory Spec2Isabelle
  imports Main "HOL-Library.Sublist"
begin

section \<open>Byte buffers and decimal rendering\<close>

text \<open>
  A buffer read from a socket is a Python \<open>bytes\<close> object. The client handler decodes it
  with ISO-8859-1, which maps every byte to the code point of the same number, and encodes the
  result with the same codec; the replacement text is ASCII. Both directions are therefore the
  identity on lists of 8-bit characters, and a buffer is modelled as a \<open>char list\<close>.
\<close>

type_synonym bytes = "char list"

definition digit_char :: "nat \<Rightarrow> char" where
  "digit_char d = ''0123456789'' ! d"

function str_nat :: "nat \<Rightarrow> string" where
  "str_nat n = (if n < 10 then [digit_char n] else str_nat (n div 10) @ [digit_char (n mod 10)])"
  by pat_completeness auto
termination
  by (relation "measure (\<lambda>n. n)") auto

declare str_nat.simps [simp del]

text \<open>The text an f-string produces for an integer: \<open>f'{self.port}'\<close>.\<close>

definition str_int :: "int \<Rightarrow> string" where
  "str_int i = (if i < 0 then CHR ''-'' # str_nat (nat (- i)) else str_nat (nat i))"

section \<open>The address pattern\<close>

text \<open>
  The pattern compiled in \<open>read_from_client\<close> is, piece by piece: an escaped opening
  bracket; under a greedy star, the negated class that holds only the closing bracket (any
  character but that one, newlines included); then the literal text \<open>]:\<close> and the
  decimal port that the f-string puts in.
\<close>

definition tail_lit :: "int \<Rightarrow> string" where
  "tail_lit port = '']:'' @ str_int port"

text \<open>
  The greedy star first takes the longest run, then gives characters back one at a time
  until the literal tail matches: \<open>backtrack lit s k\<close> tries the tail after \<open>k\<close>
  characters of \<open>s\<close> and, failing that, after \<open>k - 1\<close>. The result is the length matched.
\<close>

fun backtrack :: "string \<Rightarrow> string \<Rightarrow> nat \<Rightarrow> nat option" where
  "backtrack lit s 0 = (if prefix lit s then Some (length lit) else None)"
| "backtrack lit s (Suc k) =
     (if prefix lit (drop (Suc k) s) then Some (Suc k + length lit) else backtrack lit s k)"

definition not_close :: "char \<Rightarrow> bool" where
  "not_close c = (c \<noteq> CHR '']'')"

text \<open>The pattern anchored at the head of \<open>s\<close>; the length of the match.\<close>

definition match_at :: "int \<Rightarrow> string \<Rightarrow> nat option" where
  "match_at port s =
     (case s of
        [] \<Rightarrow> None
      | c # cs \<Rightarrow>
          if c = CHR ''[''
          then map_option Suc (backtrack (tail_lit port) cs (length (takeWhile not_close cs)))
          else None)"

text \<open>
  \<open>ip6.search(str_data)\<close>: the leftmost position at which the pattern matches, as the pair
  \<open>(ipm.start(), ipm.end())\<close>. No match starts at the end of the text, the pattern needs a
  bracket.
\<close>

fun search_from :: "int \<Rightarrow> nat \<Rightarrow> string \<Rightarrow> (nat \<times> nat) option" where
  "search_from port i [] = None"
| "search_from port i (c # cs) =
     (case match_at port (c # cs) of
        Some n \<Rightarrow> Some (i, i + n)
      | None \<Rightarrow> search_from port (Suc i) cs)"

definition ip6_search :: "int \<Rightarrow> string \<Rightarrow> (nat \<times> nat) option" where
  "ip6_search port s = search_from port 0 s"

section \<open>\<open>str.replace\<close>\<close>

text \<open>
  \<open>s.replace(old, new)\<close> without a count replaces every occurrence of \<open>old\<close>, scanning
  from the left and resuming after each replaced occurrence. With an empty \<open>old\<close> Python
  puts \<open>new\<close> before every character and at the end.
\<close>

fun replace_scan :: "string \<Rightarrow> string \<Rightarrow> string \<Rightarrow> string" where
  "replace_scan old new [] = []"
| "replace_scan old new (c # cs) =
     (if prefix old (c # cs)
      then new @ replace_scan old new (drop (length old - 1) cs)
      else c # replace_scan old new cs)"

definition py_replace :: "string \<Rightarrow> string \<Rightarrow> string \<Rightarrow> string" where
  "py_replace old new s =
     (if old = [] then new @ concat (map (\<lambda>c. c # new) s) else replace_scan old new s)"

section \<open>The client-to-upstream rewrite\<close>

definition loopback :: "int \<Rightarrow> string" where
  "loopback port = ''127.0.0.1:'' @ str_int port"

text \<open>Lines 113 to 120 of \<open>read_from_client\<close>, from the bytes read to the bytes forwarded.\<close>

definition rewrite :: "int \<Rightarrow> bytes \<Rightarrow> bytes" where
  "rewrite port data =
     (case ip6_search port data of
        None \<Rightarrow> data
      | Some (s, e) \<Rightarrow> py_replace (take (e - s) (drop s data)) (loopback port) data)"

text \<open>
  The occurrence of the pattern as the specification words it: an opening bracket, anything
  without a closing bracket, then \<open>]:\<close> and the decimal target port.
\<close>

definition occurs :: "int \<Rightarrow> bytes \<Rightarrow> bool" where
  "occurs p data =
     (\<exists>pre host post. CHR '']'' \<notin> set host \<and>
        data = pre @ ''['' @ host @ '']:'' @ str_int p @ post)"

section \<open>Sockets, the selector and the environment\<close>

text \<open>
  A socket object is identified by a number. What the operating system and the peers answer
  is an environment, indexed by a clock that every call into the environment advances, so
  that any sequence of answers can be written down. Fields of the proxy object
  (\<open>self.port\<close>, \<open>self.addr\<close>, \<open>self.running\<close>, \<open>self.sel\<close>) and the state of the
  sockets form the world that the methods pass along.
\<close>

type_synonym sock = nat

datatype exn_class =
  BlockingIOError | ConnectionResetError | ConnectionAbortedError | ConnectionRefusedError
  | RuntimeError | OSError | KeyError | ValueError | TypeError | KeyboardInterrupt

datatype exn = Exn (cls: exn_class) (exn_msg: string)

text \<open>\<open>except Exception\<close> catches every class above but \<open>KeyboardInterrupt\<close>.\<close>

definition is_Exception :: "exn \<Rightarrow> bool" where
  "is_Exception e = (cls e \<noteq> KeyboardInterrupt)"

text \<open>The data registered with a socket: the acceptor, or a handler with its two sockets.\<close>

datatype callback = AcceptConnection | ReadFromClient sock sock | ReadFromServer sock sock

record env =
  socket_result :: "nat \<Rightarrow> exn + sock"
  bind_result :: "nat \<Rightarrow> sock \<Rightarrow> exn option"
  accept_result :: "nat \<Rightarrow> exn + sock \<times> string"
  connect_result :: "nat \<Rightarrow> int \<Rightarrow> exn + sock"
  recv_result :: "nat \<Rightarrow> sock \<Rightarrow> exn + bytes"
  send_result :: "nat \<Rightarrow> sock \<Rightarrow> exn + nat"
  close_result :: "nat \<Rightarrow> sock \<Rightarrow> string option"
  select_result :: "nat \<Rightarrow> exn + sock list"
  stop_time :: "nat option"

record world =
  clock :: nat
  running :: bool
  port :: int
  addr :: "(string \<times> int) option"
  registered :: "(sock \<times> callback) list"
  sel_closed :: bool
  opened :: "sock set"
  closed :: "sock set"
  delivered :: "sock \<Rightarrow> bytes"
  logged :: "string list"
  poll_ticks :: "nat list"

text \<open>
  \<open>delivered w s\<close> is every byte socket \<open>s\<close> has accepted so far, in order;
  \<open>logged\<close> is what was printed; \<open>poll_ticks\<close> records the clock at each call of
  \<open>select\<close>. A result is a normal return, an exception, or a loop cut off by its fuel.
\<close>

datatype 'a outcome = Returns 'a | Raises exn | Unfinished

definition tick :: "world \<Rightarrow> world" where
  "tick w = w\<lparr>clock := Suc (clock w)\<rparr>"

definition print :: "string \<Rightarrow> world \<Rightarrow> world" where
  "print line w = w\<lparr>logged := logged w @ [line]\<rparr>"

definition lift :: "(exn + 'a) \<times> world \<Rightarrow> 'a outcome \<times> world" where
  "lift r = (case r of (Inl e, w) \<Rightarrow> (Raises e, w) | (Inr x, w) \<Rightarrow> (Returns x, w))"

definition and_then ::
  "'a outcome \<times> world \<Rightarrow> ('a \<Rightarrow> world \<Rightarrow> 'b outcome \<times> world) \<Rightarrow> 'b outcome \<times> world" where
  "and_then r f =
     (case r of
        (Returns x, w) \<Rightarrow> f x w
      | (Raises e, w) \<Rightarrow> (Raises e, w)
      | (Unfinished, w) \<Rightarrow> (Unfinished, w))"

definition bad_descriptor :: exn where
  "bad_descriptor = Exn OSError ''[Errno 9] Bad file descriptor''"

text \<open>
  \<open>conn.send(chunk)\<close>: a closed socket raises; otherwise the environment raises or says how
  many bytes it takes, never more than the chunk has.
\<close>

definition sock_send :: "env \<Rightarrow> world \<Rightarrow> sock \<Rightarrow> bytes \<Rightarrow> (exn + nat) \<times> world" where
  "sock_send env w conn chunk =
     (if conn \<in> closed w then (Inl bad_descriptor, w)
      else case send_result env (clock w) conn of
             Inl e \<Rightarrow> (Inl e, tick w)
           | Inr n \<Rightarrow>
               (let k = min n (length chunk)
                in (Inr k, (tick w)\<lparr>delivered :=
                              (delivered w)(conn := delivered w conn @ take k chunk)\<rparr>)))"

text \<open>\<open>s.recv(bufsize)\<close>: at most \<open>bufsize\<close> bytes; the empty buffer is end of stream.\<close>

definition sock_recv :: "env \<Rightarrow> world \<Rightarrow> sock \<Rightarrow> nat \<Rightarrow> (exn + bytes) \<times> world" where
  "sock_recv env w s bufsize =
     (if s \<in> closed w then (Inl bad_descriptor, w)
      else case recv_result env (clock w) s of
             Inl e \<Rightarrow> (Inl e, tick w)
           | Inr d \<Rightarrow> (Inr (take bufsize d), tick w))"

text \<open>
  \<open>s.close()\<close>: nothing happens on a socket already closed; otherwise the descriptor is
  released whether or not the operating system reports an error.
\<close>

definition sock_close :: "env \<Rightarrow> world \<Rightarrow> sock \<Rightarrow> (exn + unit) \<times> world" where
  "sock_close env w s =
     (if s \<in> closed w then (Inr (), w)
      else let w1 = (tick w)\<lparr>closed := insert s (closed w)\<rparr>
           in case close_result env (clock w) s of
                None \<Rightarrow> (Inr (), w1)
              | Some m \<Rightarrow> (Inl (Exn OSError m), w1))"

definition sock_accept :: "env \<Rightarrow> world \<Rightarrow> sock \<Rightarrow> (exn + sock \<times> string) \<times> world" where
  "sock_accept env w s =
     (if s \<in> closed w then (Inl bad_descriptor, w)
      else case accept_result env (clock w) of
             Inl e \<Rightarrow> (Inl e, tick w)
           | Inr (client, a) \<Rightarrow> (Inr (client, a), (tick w)\<lparr>opened := insert client (opened w)\<rparr>))"

text \<open>\<open>socket.create_connection(("127.0.0.1", port))\<close>.\<close>

definition create_connection :: "env \<Rightarrow> world \<Rightarrow> int \<Rightarrow> (exn + sock) \<times> world" where
  "create_connection env w p =
     (case connect_result env (clock w) p of
        Inl e \<Rightarrow> (Inl e, tick w)
      | Inr server \<Rightarrow> (Inr server, (tick w)\<lparr>opened := insert server (opened w)\<rparr>))"

text \<open>
  \<open>sel.register\<close> refuses a closed socket (\<open>ValueError\<close>) and a socket already registered
  (\<open>KeyError\<close>); \<open>sel.unregister\<close> raises \<open>KeyError\<close> for a socket that is not registered,
  \<open>ValueError\<close> when that socket is closed as well.
\<close>

definition sel_register :: "world \<Rightarrow> sock \<Rightarrow> callback \<Rightarrow> (exn + unit) \<times> world" where
  "sel_register w s cb =
     (if s \<in> closed w then (Inl (Exn ValueError ''Invalid file descriptor: -1''), w)
      else if s \<in> fst ` set (registered w) then (Inl (Exn KeyError ''already registered''), w)
      else (Inr (), w\<lparr>registered := registered w @ [(s, cb)]\<rparr>))"

definition sel_unregister :: "world \<Rightarrow> sock \<Rightarrow> (exn + unit) \<times> world" where
  "sel_unregister w s =
     (if s \<in> fst ` set (registered w)
      then (Inr (), w\<lparr>registered := filter (\<lambda>kv. fst kv \<noteq> s) (registered w)\<rparr>)
      else if s \<in> closed w then (Inl (Exn ValueError ''Invalid file descriptor: -1''), w)
      else (Inl (Exn KeyError ''not registered''), w))"

text \<open>
  \<open>sel.select(timeout=1.0)\<close>: the keys of the registered sockets the environment reports
  ready, or an exception.
\<close>

definition sel_select :: "env \<Rightarrow> world \<Rightarrow> (exn + (sock \<times> callback) list) \<times> world" where
  "sel_select env w =
     (let w1 = (tick w)\<lparr>poll_ticks := poll_ticks w @ [clock w]\<rparr>
      in case select_result env (clock w) of
           Inl e \<Rightarrow> (Inl e, w1)
         | Inr ready \<Rightarrow>
             (Inr (List.map_filter
                     (\<lambda>s. map_option (Pair s) (map_of (registered w) s)) ready), w1))"

definition sel_close :: "world \<Rightarrow> world" where
  "sel_close w = w\<lparr>registered := [], sel_closed := True\<rparr>"

section \<open>\<open>safe_send\<close>\<close>

text \<open>
  The \<open>while totalsent < msg_len\<close> loop with its inner \<open>try\<close>. A send of 0 bytes raises
  \<open>RuntimeError\<close>; \<open>BlockingIOError\<close> sleeps and tries again; any other exception leaves
  the loop.
\<close>

fun send_loop :: "nat \<Rightarrow> env \<Rightarrow> world \<Rightarrow> sock \<Rightarrow> bytes \<Rightarrow> nat \<Rightarrow> unit outcome \<times> world" where
  "send_loop 0 env w conn msg totalsent = (Unfinished, w)"
| "send_loop (Suc fuel) env w conn msg totalsent =
     (if totalsent < length msg
      then (case sock_send env w conn (drop totalsent msg) of
              (Inr sent, w1) \<Rightarrow>
                if sent = 0 then (Raises (Exn RuntimeError ''socket connection broken''), w1)
                else send_loop fuel env w1 conn msg (totalsent + sent)
            | (Inl e, w1) \<Rightarrow>
                if cls e = BlockingIOError then send_loop fuel env w1 conn msg totalsent
                else (Raises e, w1))
      else (Returns (), w))"

text \<open>The outer \<open>try\<close> prints whatever \<open>Exception\<close> left the loop and returns.\<close>

definition safe_send :: "nat \<Rightarrow> env \<Rightarrow> world \<Rightarrow> sock \<Rightarrow> bytes \<Rightarrow> unit outcome \<times> world" where
  "safe_send fuel env w conn msg =
     (if msg = [] then (Returns (), w)
      else case send_loop fuel env
                  (print (''Sending '' @ str_nat (length msg) @ '' bytes'') w) conn msg 0 of
             (Raises e, w1) \<Rightarrow>
               if is_Exception e
               then (Returns (), print (''Error in safe_send: '' @ exn_msg e) w1)
               else (Raises e, w1)
           | r \<Rightarrow> r)"

section \<open>Teardown\<close>

text \<open>\<open>try: ... except Exception: pass\<close>.\<close>

definition try_pass :: "(exn + unit) \<times> world \<Rightarrow> unit outcome \<times> world" where
  "try_pass r =
     (case r of
        (Inl e, w) \<Rightarrow> if is_Exception e then (Returns (), w) else (Raises e, w)
      | (Inr u, w) \<Rightarrow> (Returns (), w))"

definition close_connection :: "env \<Rightarrow> world \<Rightarrow> sock \<Rightarrow> sock \<Rightarrow> unit outcome \<times> world" where
  "close_connection env w client server =
     and_then (try_pass (sel_unregister w client)) (\<lambda>u w1.
     and_then (try_pass (sel_unregister w1 server)) (\<lambda>u w2.
     and_then (try_pass (sock_close env w2 client)) (\<lambda>u w3.
     try_pass (sock_close env w3 server))))"

section \<open>The acceptor and the two handlers\<close>

text \<open>
  \<open>setblocking(False)\<close> changes nothing that is modelled here: whether a call would block is
  the environment's answer \<open>BlockingIOError\<close>.
\<close>

text \<open>An \<open>except Exception\<close> clause that prints and goes on.\<close>

definition catch_print :: "string \<Rightarrow> unit outcome \<times> world \<Rightarrow> unit outcome \<times> world" where
  "catch_print line r =
     (case r of
        (Raises e, w1) \<Rightarrow>
          if is_Exception e then (Returns (), print (line @ exn_msg e) w1) else (Raises e, w1)
      | r \<Rightarrow> r)"

text \<open>
  Object lifetime. A socket object that nothing refers to any more is closed by its
  finalizer: CPython counts references and releases the descriptor when the last one goes.
  The selector's map refers to every registered socket and, through the handler tuple
  registered with it, to both sockets of that pair. A local variable that goes out of scope
  therefore closes its socket unless the map still refers to it; an error of that close is
  ignored.
\<close>

fun refers_to :: "sock \<times> callback \<Rightarrow> sock \<Rightarrow> bool" where
  "refers_to (k, AcceptConnection) s = (k = s)"
| "refers_to (k, ReadFromClient client server) s = (k = s \<or> client = s \<or> server = s)"
| "refers_to (k, ReadFromServer client server) s = (k = s \<or> client = s \<or> server = s)"

definition referenced :: "world \<Rightarrow> sock \<Rightarrow> bool" where
  "referenced w s = list_ex (\<lambda>key. refers_to key s) (registered w)"

definition drop_local :: "env \<Rightarrow> world \<Rightarrow> sock \<Rightarrow> world" where
  "drop_local env w s = (if referenced w s then w else snd (sock_close env w s))"

text \<open>
  A normal return drops the locals of the call. An exception that leaves the call keeps the
  frame, and with it the locals, alive in its traceback.
\<close>

definition return_from ::
  "env \<Rightarrow> sock list \<Rightarrow> unit outcome \<times> world \<Rightarrow> unit outcome \<times> world" where
  "return_from env locals r =
     (case r of
        (Returns u, w) \<Rightarrow> (Returns u, foldl (drop_local env) w locals)
      | r \<Rightarrow> r)"

text \<open>
  \<open>accept_connection\<close>: the \<open>try\<close> block stops at the first call that raises, the
  \<open>except\<close> clause prints, and the call returns with the locals bound so far:
  none when \<open>accept\<close> raised, \<open>client\<close> when the connect raised, \<open>client\<close> and
  \<open>server\<close> after that.
\<close>

definition accept_connection :: "env \<Rightarrow> world \<Rightarrow> sock \<Rightarrow> unit outcome \<times> world" where
  "accept_connection env w s =
     (case sock_accept env w s of
        (Inl e, w1) \<Rightarrow>
          return_from env [] (catch_print ''Error accepting connection: '' (Raises e, w1))
      | (Inr (client, a), w1) \<Rightarrow>
          (case create_connection env (print (''New connection from '' @ a) w1) (port w1) of
             (Inl e, w2) \<Rightarrow>
               return_from env [client]
                 (catch_print ''Error accepting connection: '' (Raises e, w2))
           | (Inr server, w2) \<Rightarrow>
               return_from env [client, server]
                 (catch_print ''Error accepting connection: ''
                    (and_then (lift (sel_register w2 client (ReadFromClient client server)))
                       (\<lambda>u w3. lift (sel_register w3 server (ReadFromServer client server)))))))"

text \<open>The two \<open>except\<close> clauses shared by the handlers, \<open>who\<close> being Client or Server.\<close>

definition handler_except ::
  "string \<Rightarrow> string \<Rightarrow> env \<Rightarrow> sock \<Rightarrow> sock \<Rightarrow> unit outcome \<times> world \<Rightarrow> unit outcome \<times> world" where
  "handler_except lost failed env client server r =
     (case r of
        (Raises e, w) \<Rightarrow>
          if cls e = ConnectionResetError \<or> cls e = ConnectionAbortedError
          then close_connection env (print lost w) client server
          else if is_Exception e
          then close_connection env (print (failed @ exn_msg e) w) client server
          else (Raises e, w)
      | r \<Rightarrow> r)"

definition read_from_client :: "nat \<Rightarrow> env \<Rightarrow> world \<Rightarrow> sock \<Rightarrow> sock \<Rightarrow> unit outcome \<times> world" where
  "read_from_client fuel env w client server =
     handler_except ''Client connection lost'' ''Error reading from client: '' env client server
       (and_then (lift (sock_recv env w client 4096)) (\<lambda>data w1.
          if data \<noteq> []
          then let data = rewrite (port w1) data
               in safe_send fuel env
                    (print (''Client -> Server: '' @ str_nat (length data) @ '' bytes'') w1)
                    server data
          else close_connection env (print ''Client closed connection'' w1) client server))"

definition read_from_server :: "nat \<Rightarrow> env \<Rightarrow> world \<Rightarrow> sock \<Rightarrow> sock \<Rightarrow> unit outcome \<times> world" where
  "read_from_server fuel env w client server =
     handler_except ''Server connection lost'' ''Error reading from server: '' env client server
       (and_then (lift (sock_recv env w server 4096)) (\<lambda>data w1.
          if data \<noteq> []
          then safe_send fuel env
                 (print (''Server -> Client: '' @ str_nat (length data) @ '' bytes'') w1)
                 client data
          else close_connection env (print ''Server closed connection'' w1) client server))"

section \<open>The event loop\<close>

text \<open>One ready key: a tuple is a handler with its sockets, anything else the acceptor.\<close>

definition dispatch :: "nat \<Rightarrow> env \<Rightarrow> world \<Rightarrow> sock \<times> callback \<Rightarrow> unit outcome \<times> world" where
  "dispatch fuel env w key =
     (case snd key of
        ReadFromClient client server \<Rightarrow> read_from_client fuel env w client server
      | ReadFromServer client server \<Rightarrow> read_from_server fuel env w client server
      | AcceptConnection \<Rightarrow> accept_connection env w (fst key))"

fun for_events ::
  "nat \<Rightarrow> env \<Rightarrow> world \<Rightarrow> (sock \<times> callback) list \<Rightarrow> unit outcome \<times> world" where
  "for_events fuel env w [] = (Returns (), w)"
| "for_events fuel env w (key # keys) =
     and_then (dispatch fuel env w key) (\<lambda>u w1. for_events fuel env w1 keys)"

text \<open>
  Another thread stops the proxy by clearing \<open>self.running\<close>; the environment says at which
  clock value that happens. \<open>see_stop\<close> is the flag as the loop finds it when it looks.
\<close>

definition see_stop :: "env \<Rightarrow> world \<Rightarrow> world" where
  "see_stop env w =
     (case stop_time env of
        None \<Rightarrow> w
      | Some t \<Rightarrow> if t \<le> clock w then w\<lparr>running := False\<rparr> else w)"

fun event_loop :: "nat \<Rightarrow> env \<Rightarrow> world \<Rightarrow> unit outcome \<times> world" where
  "event_loop 0 env w = (Unfinished, w)"
| "event_loop (Suc fuel) env w =
     (let w0 = see_stop env w
      in if \<not> running w0 then (Returns (), w0)
         else case and_then (lift (sel_select env w0)) (\<lambda>events w1.
                     for_events fuel env w1 events) of
                (Returns u, w2) \<Rightarrow> event_loop fuel env w2
              | (Raises e, w2) \<Rightarrow>
                  if cls e = KeyboardInterrupt
                  then (Returns (), (print (CHR 0x0A # ''Shutting down...'') w2)\<lparr>running := False\<rparr>)
                  else if is_Exception e
                  then event_loop fuel env (print (''Error in select loop: '' @ exn_msg e) w2)
                  else (Raises e, w2)
              | (Unfinished, w2) \<Rightarrow> (Unfinished, w2))"

section \<open>\<open>run\<close>\<close>

text \<open>
  The listening socket: \<open>socket.socket\<close>, then \<open>setsockopt\<close>, \<open>bind(self.addr)\<close> and
  \<open>listen(20)\<close>, whose failures the environment gives as one answer. \<open>bind(None)\<close> is a
  \<open>TypeError\<close>.
\<close>

definition open_listener :: "env \<Rightarrow> world \<Rightarrow> (exn + sock) \<times> world" where
  "open_listener env w =
     (case socket_result env (clock w) of
        Inl e \<Rightarrow> (Inl e, tick w)
      | Inr s \<Rightarrow>
          (let w1 = (tick w)\<lparr>opened := insert s (opened w)\<rparr>
           in case addr w of
                None \<Rightarrow> (Inl (Exn TypeError ''bind(): AF_INET6 address must be tuple, not NoneType''), w1)
              | Some a \<Rightarrow>
                  (case bind_result env (clock w1) s of
                     Some e \<Rightarrow> (Inl e, tick w1)
                   | None \<Rightarrow> (Inr s, tick w1))))"

definition addr_text :: "(string \<times> int) option \<Rightarrow> string" where
  "addr_text a = (case a of None \<Rightarrow> [] | Some (h, n) \<Rightarrow> ''['' @ h @ '']:'' @ str_int n)"

text \<open>The \<open>try\<close> block of \<open>run\<close> with its \<open>except Exception\<close> clause, from a new selector.\<close>

definition run_body :: "nat \<Rightarrow> env \<Rightarrow> world \<Rightarrow> unit outcome \<times> world" where
  "run_body fuel env w =
     (case and_then (lift (open_listener env (w\<lparr>registered := [], sel_closed := False\<rparr>)))
             (\<lambda>ipv6side w1.
           and_then (lift (sel_register w1 ipv6side AcceptConnection)) (\<lambda>u w2.
           event_loop fuel env
             (print (''Proxy server started successfully on '' @ addr_text (addr w2)) w2))) of
        (Raises e, w1) \<Rightarrow>
          if is_Exception e
          then (Returns (), print (''Error starting proxy server: '' @ exn_msg e) w1)
          else (Raises e, w1)
      | r \<Rightarrow> r)"

text \<open>
  The \<open>finally\<close> clause: every socket in the selector's map is closed, errors ignored, then
  the selector.
\<close>

definition cleanup :: "env \<Rightarrow> world \<Rightarrow> world" where
  "cleanup env w =
     sel_close (foldl (\<lambda>w1 key. snd (sock_close env w1 (fst key))) w (registered w))"

text \<open>
  \<open>run\<close> without the interactive set-up of standalone mode. While the loop is still going
  (the fuel ran out) the \<open>finally\<close> clause has not been reached. The result is the world
  as the \<open>finally\<close> clause leaves it: the local \<open>ipv6side\<close> is dropped only after that,
  when \<open>run\<close> returns.
\<close>

definition run :: "nat \<Rightarrow> env \<Rightarrow> world \<Rightarrow> unit outcome \<times> world" where
  "run fuel env w =
     (case run_body fuel env w of
        (Unfinished, w1) \<Rightarrow> (Unfinished, w1)
      | (r, w1) \<Rightarrow> (r, cleanup env w1))"


section \<open>Notions used in the statements\<close>

text \<open>The world after the four steps of \<open>close_connection\<close>, each with its error ignored.\<close>

definition torn_down :: "env \<Rightarrow> world \<Rightarrow> sock \<Rightarrow> sock \<Rightarrow> world" where
  "torn_down env w client server =
     snd (sock_close env (snd (sock_close env
            (snd (sel_unregister (snd (sel_unregister w client)) server)) client)) server)"

text \<open>A pair is torn down when neither socket is registered and both are closed.\<close>

definition pair_torn_down :: "world \<Rightarrow> sock \<Rightarrow> sock \<Rightarrow> bool" where
  "pair_torn_down w client server =
     (client \<notin> fst ` set (registered w) \<and> server \<notin> fst ` set (registered w)
      \<and> client \<in> closed w \<and> server \<in> closed w)"

text \<open>From \<open>w\<close> to \<open>w'\<close> nothing happened but socket \<open>conn\<close> accepting the bytes \<open>bs\<close>
  and the clock advancing.\<close>

definition only_sent :: "world \<Rightarrow> world \<Rightarrow> sock \<Rightarrow> bytes \<Rightarrow> bool" where
  "only_sent w w' conn bs =
     (delivered w' conn = delivered w conn @ bs
      \<and> (\<forall>s. s \<noteq> conn \<longrightarrow> delivered w' s = delivered w s)
      \<and> logged w' = logged w \<and> registered w' = registered w \<and> closed w' = closed w
      \<and> opened w' = opened w \<and> poll_ticks w' = poll_ticks w \<and> running w' = running w
      \<and> port w' = port w \<and> addr w' = addr w \<and> sel_closed w' = sel_closed w
      \<and> clock w \<le> clock w')"

text \<open>The line \<open>safe_send\<close> prints first.\<close>

definition sending :: "bytes \<Rightarrow> string" where
  "sending msg = ''Sending '' @ str_nat (length msg) @ '' bytes''"

text \<open>The line a handler prints for a read error: the first \<open>except\<close> clause for a reset or
  an abort, the second for any other \<open>Exception\<close>.\<close>

definition read_error_line :: "string \<Rightarrow> string \<Rightarrow> exn \<Rightarrow> string" where
  "read_error_line lost failed e =
     (if cls e = ConnectionResetError \<or> cls e = ConnectionAbortedError then lost
      else failed @ exn_msg e)"

text \<open>
  What makes \<open>safe_send\<close> give up, seen from the world \<open>w\<close> in which it gave up with
  the exception \<open>e\<close>: the socket is closed and a send on it raised; or the send just made
  raised \<open>e\<close>, which is not \<open>BlockingIOError\<close>; or the send just made took 0 bytes and
  \<open>e\<close> is the \<open>RuntimeError\<close> raised for that.
\<close>

definition send_failure :: "env \<Rightarrow> world \<Rightarrow> sock \<Rightarrow> exn \<Rightarrow> bool" where
  "send_failure env w conn e =
     (if conn \<in> closed w then e = bad_descriptor
      else 0 < clock w
        \<and> (case send_result env (clock w - 1) conn of
              Inl x \<Rightarrow> e = x \<and> cls x \<noteq> BlockingIOError
            | Inr n \<Rightarrow> n = 0 \<and> e = Exn RuntimeError ''socket connection broken''))"

text \<open>The \<open>try\<close> block inside the \<open>while\<close> loop: one poll and its handlers.\<close>

definition loop_body :: "nat \<Rightarrow> env \<Rightarrow> world \<Rightarrow> unit outcome \<times> world" where
  "loop_body fuel env w0 =
     and_then (lift (sel_select env w0)) (\<lambda>events w1. for_events fuel env w1 events)"

text \<open>Every new poll was made before the flag was cleared, and none if it was clear already.\<close>

definition polled_before_stop :: "env \<Rightarrow> world \<Rightarrow> world \<Rightarrow> bool" where
  "polled_before_stop env w w' =
     (\<exists>new. poll_ticks w' = poll_ticks w @ new
        \<and> (\<forall>c\<in>set new. \<forall>t. stop_time env = Some t \<longrightarrow> c < t)
        \<and> (\<not> running w \<longrightarrow> new = []))"

section \<open>Concrete environments and worlds\<close>

text \<open>
  An environment in which nothing happens: no client is waiting, nothing listens on the
  target port, reads see the end of the stream and sends take no byte.
\<close>

definition quiet_env :: env where
  "quiet_env =
     \<lparr>socket_result = (\<lambda>t. Inr 1),
      bind_result = (\<lambda>t s. None),
      accept_result = (\<lambda>t. Inl (Exn BlockingIOError ''[Errno 11] Resource temporarily unavailable'')),
      connect_result = (\<lambda>t p. Inl (Exn ConnectionRefusedError ''[Errno 111] Connection refused'')),
      recv_result = (\<lambda>t s. Inr []),
      send_result = (\<lambda>t s. Inr 0),
      close_result = (\<lambda>t s. None),
      select_result = (\<lambda>t. Inr []),
      stop_time = None\<rparr>"

text \<open>
  A proxy for port 7245 before \<open>run\<close>.
\<close>

definition world0 :: world where
  "world0 =
     \<lparr>clock = 0, running = True, port = 7245, addr = Some (''::1'', 7245), registered = [],
      sel_closed = False, opened = {}, closed = {}, delivered = (\<lambda>s. []), logged = [],
      poll_ticks = []\<rparr>"

text \<open>
  One connection pair, client socket 1 and upstream socket 2.
\<close>

definition paired :: world where
  "paired = world0\<lparr>registered := [(1, ReadFromClient 1 2), (2, ReadFromServer 1 2)],
                    opened := {1, 2}\<rparr>"

text \<open>
  Only the listening socket 1 is registered.
\<close>

definition listening :: world where
  "listening = world0\<lparr>registered := [(1, AcceptConnection)], opened := {1}\<rparr>"

text \<open>
  Environments for single scenarios: a socket that takes two bytes per send; a peer that
  sends a Host header and a socket that takes ten bytes per send; a send that fails with a
  broken pipe; a read that fails with a reset; a client waiting while nothing listens on the
  target port; a client waiting, an upstream that accepts, and a stop request at clock 5.
\<close>

definition two_at_a_time :: env where
  "two_at_a_time = quiet_env\<lparr>send_result := (\<lambda>t s. Inr 2)\<rparr>"

definition answering :: env where
  "answering = quiet_env\<lparr>recv_result := (\<lambda>t s. Inr ''Host: [::1]:7245''),
                          send_result := (\<lambda>t s. Inr 10)\<rparr>"

definition broken_pipe :: env where
  "broken_pipe = quiet_env\<lparr>recv_result := (\<lambda>t s. Inr ''ping''),
                            send_result := (\<lambda>t s. Inl (Exn OSError ''[Errno 32] Broken pipe''))\<rparr>"

definition resetting :: env where
  "resetting = quiet_env\<lparr>recv_result :=
      (\<lambda>t s. Inl (Exn ConnectionResetError ''[Errno 104] Connection reset by peer''))\<rparr>"

definition refusing :: env where
  "refusing = quiet_env\<lparr>accept_result := (\<lambda>t. Inr (5, ''client''))\<rparr>"

definition serving :: env where
  "serving = quiet_env\<lparr>accept_result := (\<lambda>t. Inr (2, ''client'')),
                        connect_result := (\<lambda>t p. Inr 3),
                        select_result := (\<lambda>t. Inr [1]),
                        stop_time := Some 5\<rparr>"

section \<open>Properties of the rewrite\<close>

lemma tail_lit_Cons: "tail_lit p = CHR '']'' # CHR '':'' # str_int p"
  by (simp add: tail_lit_def)

lemma backtrack_below:
  assumes "k < length (takeWhile not_close s)"
  shows "backtrack (CHR '']'' # l) s k = None"
  using assms
proof (induction k)
  case 0
  then obtain c cs where s: "s = c # cs" by (cases s) auto
  with 0 have "not_close c" by (auto split: if_splits)
  then show ?case by (simp add: s not_close_def)
next
  case (Suc k)
  let ?t = "takeWhile not_close s"
  from Suc.prems have lt: "Suc k < length s"
    using length_takeWhile_le [of not_close s] by simp
  have "s ! Suc k = ?t ! Suc k"
    using Suc.prems by (simp add: takeWhile_nth)
  moreover have "?t ! Suc k \<in> set ?t"
    using Suc.prems by simp
  ultimately have "not_close (s ! Suc k)"
    by (metis set_takeWhileD)
  moreover have "drop (Suc k) s = s ! Suc k # drop (Suc (Suc k)) s"
    using lt by (simp add: Cons_nth_drop_Suc)
  ultimately have "\<not> prefix (CHR '']'' # l) (drop (Suc k) s)"
    by (auto simp: not_close_def)
  with Suc show ?case by simp
qed

lemma backtrack_greedy:
  "backtrack (CHR '']'' # l) s (length (takeWhile not_close s)) =
     (if prefix (CHR '']'' # l) (dropWhile not_close s)
      then Some (length (takeWhile not_close s) + Suc (length l)) else None)"
proof (cases "length (takeWhile not_close s)")
  case 0
  then have "takeWhile not_close s = []" by simp
  then have "dropWhile not_close s = s"
    by (metis append_Nil takeWhile_dropWhile_id)
  with 0 show ?thesis by simp
next
  case (Suc k)
  have d: "drop (Suc k) s = dropWhile not_close s"
    using Suc by (metis dropWhile_eq_drop)
  have "backtrack (CHR '']'' # l) s k = None"
    using Suc by (intro backtrack_below) simp
  with Suc d show ?thesis by simp
qed

lemma match_at_Cons:
  "match_at p (c # cs) =
     (if c = CHR ''['' \<and> prefix (tail_lit p) (dropWhile not_close cs)
      then Some (Suc (length (takeWhile not_close cs)) + length (tail_lit p)) else None)"
  by (simp add: match_at_def tail_lit_Cons backtrack_greedy)

lemma match_at_Nil: "match_at p [] = None"
  by (simp add: match_at_def)

lemma match_at_SomeD:
  assumes "match_at p s = Some n"
  shows "\<exists>host post. s = CHR ''['' # host @ tail_lit p @ post \<and> CHR '']'' \<notin> set host
           \<and> n = Suc (length host) + length (tail_lit p)"
proof -
  from assms obtain c cs where s: "s = c # cs"
    by (cases s) (auto simp: match_at_Nil)
  from assms s have c: "c = CHR ''[''" and p: "prefix (tail_lit p) (dropWhile not_close cs)"
    and n: "n = Suc (length (takeWhile not_close cs)) + length (tail_lit p)"
    by (auto simp: match_at_Cons split: if_splits)
  from p obtain post where post: "dropWhile not_close cs = tail_lit p @ post"
    by (auto simp: prefix_def)
  have "cs = takeWhile not_close cs @ tail_lit p @ post"
    using post by (metis takeWhile_dropWhile_id)
  moreover have "CHR '']'' \<notin> set (takeWhile not_close cs)"
    by (metis not_close_def set_takeWhileD)
  ultimately show ?thesis using s c n by blast
qed

lemma match_at_SomeI:
  assumes "CHR '']'' \<notin> set host"
  shows "match_at p (CHR ''['' # host @ tail_lit p @ post)
           = Some (Suc (length host) + length (tail_lit p))"
proof -
  have a: "\<forall>x\<in>set host. not_close x"
    using assms by (auto simp: not_close_def)
  have "takeWhile not_close (host @ tail_lit p @ post) = host"
    using a by (simp add: takeWhile_append2 tail_lit_Cons not_close_def)
  moreover have "dropWhile not_close (host @ tail_lit p @ post) = tail_lit p @ post"
    using a by (simp add: dropWhile_append2 tail_lit_Cons not_close_def)
  ultimately show ?thesis by (simp add: match_at_Cons)
qed

lemma search_from_SomeD:
  "search_from p i s = Some (a, b) \<Longrightarrow>
     \<exists>k. a = i + k \<and> k < length s \<and> match_at p (drop k s) = Some (b - a) \<and> a \<le> b
         \<and> (\<forall>j<k. match_at p (drop j s) = None)"
proof (induction s arbitrary: i)
  case Nil
  then show ?case by simp
next
  case (Cons c cs)
  show ?case
  proof (cases "match_at p (c # cs)")
    case (Some n)
    with Cons.prems have "a = i" "b = i + n" by auto
    with Some show ?thesis by (intro exI [of _ 0]) simp
  next
    case None
    with Cons.prems have "search_from p (Suc i) cs = Some (a, b)" by simp
    from Cons.IH [OF this] obtain k where k: "a = Suc i + k" "k < length cs"
      "match_at p (drop k cs) = Some (b - a)" "a \<le> b" "\<forall>j<k. match_at p (drop j cs) = None"
      by blast
    have "\<forall>j<Suc k. match_at p (drop j (c # cs)) = None"
    proof (intro allI impI)
      fix j assume "j < Suc k"
      then show "match_at p (drop j (c # cs)) = None"
        using None k(5) by (cases j) auto
    qed
    with k show ?thesis by (intro exI [of _ "Suc k"]) simp
  qed
qed

lemma search_from_NoneD:
  "search_from p i s = None \<Longrightarrow> j < length s \<Longrightarrow> match_at p (drop j s) = None"
proof (induction s arbitrary: i j)
  case Nil
  then show ?case by simp
next
  case (Cons c cs)
  then show ?case
    by (cases j) (auto split: option.splits)
qed


lemma search_Some_occurs:
  assumes "ip6_search p data = Some (a, b)"
  shows "occurs p data"
proof -
  from assms obtain k where k: "k < length data" "match_at p (drop k data) = Some (b - a)"
    using search_from_SomeD [of p 0 data a b] by (auto simp: ip6_search_def)
  from match_at_SomeD [OF k(2)] obtain host post where
    d: "drop k data = CHR ''['' # host @ tail_lit p @ post" and a: "CHR '']'' \<notin> set host"
    by blast
  have "data = take k data @ drop k data" by simp
  with d have "data = take k data @ ''['' @ host @ '']:'' @ str_int p @ post"
    by (simp add: tail_lit_def)
  with a show ?thesis unfolding occurs_def by blast
qed

lemma occurs_search_Some:
  assumes "occurs p data"
  shows "ip6_search p data \<noteq> None"
proof
  assume n: "ip6_search p data = None"
  from assms obtain pre host post where a: "CHR '']'' \<notin> set host"
    and d: "data = pre @ ''['' @ host @ '']:'' @ str_int p @ post"
    unfolding occurs_def by blast
  have "drop (length pre) data = CHR ''['' # host @ tail_lit p @ post"
    using d by (simp add: tail_lit_def)
  then have "match_at p (drop (length pre) data) \<noteq> None"
    using match_at_SomeI [OF a, of p post] by simp
  moreover have "length pre < length data" using d by simp
  ultimately show False
    using search_from_NoneD [of p 0 data "length pre"] n by (simp add: ip6_search_def)
qed

lemma occurs_iff_search: "occurs p data \<longleftrightarrow> ip6_search p data \<noteq> None"
proof
  assume "occurs p data"
  then show "ip6_search p data \<noteq> None" by (rule occurs_search_Some)
next
  assume "ip6_search p data \<noteq> None"
  then obtain a b where "ip6_search p data = Some (a, b)" by auto
  then show "occurs p data" by (rule search_Some_occurs)
qed

text \<open>
  \<^bold>\<open>C5\<close>. A buffer in which the bracketed address followed by \<open>]:\<close> and the decimal
  target port does not occur is forwarded as it was read: the rewrite is the identity on it.
\<close>

theorem rewrite_identity_without_pattern:
  assumes "\<not> occurs p data"
  shows "rewrite p data = data"
proof (cases "ip6_search p data")
  case None
  then show ?thesis by (simp add: rewrite_def)
next
  case (Some span)
  then have "occurs p data"
    by (cases span) (auto dest: search_Some_occurs)
  with assms show ?thesis by simp
qed

lemma replace_scan_absent:
  "old \<noteq> [] \<Longrightarrow> \<not> sublist old t \<Longrightarrow> replace_scan old new t = t"
  by (induction t) (auto simp: sublist_Cons_right)

lemma replace_scan_head:
  assumes "old \<noteq> []"
  shows "replace_scan old new (old @ post) = new @ replace_scan old new post"
proof -
  from assms obtain c cs where o: "old = c # cs" by (cases old) auto
  show ?thesis by (simp add: o)
qed

lemma replace_scan_first:
  assumes "old \<noteq> []"
    and "\<forall>j<length pre. \<not> prefix old (drop j (pre @ old @ post))"
  shows "replace_scan old new (pre @ old @ post) = pre @ new @ replace_scan old new post"
  using assms(2)
proof (induction pre)
  case Nil
  show ?case using replace_scan_head [OF assms(1)] by simp
next
  case (Cons c pre)
  from Cons.prems have "\<not> prefix old ((c # pre) @ old @ post)"
    by (metis drop0 length_greater_0_conv list.distinct(1))
  moreover have "\<forall>j<length pre. \<not> prefix old (drop j (pre @ old @ post))"
  proof (intro allI impI)
    fix j assume "j < length pre"
    then have "Suc j < length (c # pre)" by simp
    from Cons.prems [rule_format, OF this] show "\<not> prefix old (drop j (pre @ old @ post))"
      by simp
  qed
  ultimately show ?case using Cons.IH by simp
qed

lemma search_span:
  assumes "ip6_search p data = Some (s, e)"
  shows "\<exists>host. CHR '']'' \<notin> set host \<and> s \<le> e \<and> e \<le> length data
           \<and> take (e - s) (drop s data) = CHR ''['' # host @ tail_lit p
           \<and> data = take s data @ (CHR ''['' # host @ tail_lit p) @ drop e data
           \<and> (\<forall>j<s. match_at p (drop j data) = None)"
proof -
  from assms obtain k where k: "s = k" "k < length data" "match_at p (drop k data) = Some (e - s)"
    "s \<le> e" "\<forall>j<k. match_at p (drop j data) = None"
    using search_from_SomeD [of p 0 data s e] by (auto simp: ip6_search_def)
  from match_at_SomeD [OF k(3)] obtain host post where
    d: "drop s data = CHR ''['' # host @ tail_lit p @ post" and a: "CHR '']'' \<notin> set host"
    and n: "e - s = Suc (length host) + length (tail_lit p)"
    using k(1) by blast
  let ?m = "CHR ''['' # host @ tail_lit p"
  have dm: "drop s data = ?m @ post" using d by simp
  have len: "e - s = length ?m" using n by simp
  have t: "take (e - s) (drop s data) = ?m"
    unfolding dm len by simp
  have "drop (e - s) (drop s data) = post"
    unfolding dm len by simp
  then have p: "drop e data = post" using k(4) by simp
  have "length (drop s data) = length ?m + length post" unfolding dm by simp
  then have le: "e \<le> length data" using len k(4) by simp
  have "data = take s data @ drop s data" by simp
  then have "data = take s data @ ?m @ drop e data" using dm p by simp
  with a t k le show ?thesis by blast
qed

text \<open>
  \<^bold>\<open>C1\<close>, as the code has it. When the pattern is found, the first matched span is replaced
  by the loopback text, and the rest of the buffer goes through \<open>str.replace\<close> with the
  matched text: later spans that repeat exactly that text are replaced too. When the matched
  text does not occur again after the first span, the rest of the buffer is left byte for byte
  as it was, other occurrences of the pattern included.
\<close>

theorem rewrite_first_span:
  assumes "ip6_search p data = Some (s, e)"
  shows "rewrite p data =
           take s data @ loopback p @
             py_replace (take (e - s) (drop s data)) (loopback p) (drop e data)
         \<and> (\<not> sublist (take (e - s) (drop s data)) (drop e data) \<longrightarrow>
              rewrite p data = take s data @ loopback p @ drop e data)"
proof -
  from search_span [OF assms] obtain host where a: "CHR '']'' \<notin> set host"
    and se: "s \<le> e" "e \<le> length data"
    and m: "take (e - s) (drop s data) = CHR ''['' # host @ tail_lit p"
    and d: "data = take s data @ (CHR ''['' # host @ tail_lit p) @ drop e data"
    and first: "\<forall>j<s. match_at p (drop j data) = None"
    by blast
  let ?m = "CHR ''['' # host @ tail_lit p"
  let ?pre = "take s data"
  let ?post = "drop e data"
  have ne: "?m \<noteq> []" by simp
  have ls: "length ?pre = s" using se by simp
  have nopre: "\<forall>j<length ?pre. \<not> prefix ?m (drop j (?pre @ ?m @ ?post))"
  proof (intro allI impI notI)
    fix j assume j: "j < length ?pre" and p: "prefix ?m (drop j (?pre @ ?m @ ?post))"
    from p obtain r where "drop j data = ?m @ r"
      using d by (metis prefix_def)
    then have "match_at p (drop j data) = Some (Suc (length host) + length (tail_lit p))"
      using match_at_SomeI [OF a, of p r] by simp
    moreover have "j < s" using j ls by simp
    ultimately show False using first by simp
  qed
  have "replace_scan ?m (loopback p) (?pre @ ?m @ ?post)
          = ?pre @ loopback p @ replace_scan ?m (loopback p) ?post"
    by (rule replace_scan_first [OF ne nopre])
  then have r: "replace_scan ?m (loopback p) data
          = ?pre @ loopback p @ replace_scan ?m (loopback p) ?post"
    using d by simp
  have "rewrite p data = py_replace (take (e - s) (drop s data)) (loopback p) data"
    using assms by (simp add: rewrite_def)
  then have "rewrite p data = py_replace ?m (loopback p) data"
    by (simp only: m)
  then have rw: "rewrite p data = replace_scan ?m (loopback p) data"
    by (simp add: py_replace_def)
  have 1: "rewrite p data = ?pre @ loopback p @ py_replace ?m (loopback p) ?post"
    using rw r by (simp add: py_replace_def)
  have 2: "\<not> sublist ?m ?post \<Longrightarrow> rewrite p data = ?pre @ loopback p @ ?post"
    using rw r replace_scan_absent [OF ne, of ?post "loopback p"] by simp
  show ?thesis unfolding m using 1 2 by blast
qed

lemma str7245: "str_int 7245 = ''7245''"
  by (simp add: str_int_def str_nat.simps digit_char_def)

lemma match_simps:
  "match_at p [] = None"
  "match_at p (c # cs) = (if c = CHR ''[''
          then map_option Suc (backtrack (tail_lit p) cs (length (takeWhile not_close cs)))
          else None)"
  by (simp_all add: match_at_def)

lemmas eval_simps = rewrite_def ip6_search_def match_simps tail_lit_def str7245 not_close_def
      py_replace_def loopback_def

text \<open>The first span only, at a buffer with two different addresses.\<close>

theorem rewrite_first_span_witness:
  "ip6_search 7245 ''[::1]:7245 [::2]:7245'' = Some (0, 10)
   \<and> \<not> sublist ''[::1]:7245'' '' [::2]:7245''
   \<and> rewrite 7245 ''[::1]:7245 [::2]:7245'' = ''127.0.0.1:7245 [::2]:7245''"
proof -
  have s: "ip6_search 7245 ''[::1]:7245 [::2]:7245'' = Some (0, 10)"
    by (simp add: eval_simps)
  have n: "\<not> sublist ''[::1]:7245'' '' [::2]:7245''"
    by (simp add: sublist_Cons_right)
  show ?thesis
    using rewrite_first_span [OF s, THEN conjunct2] s n by (simp add: loopback_def str7245)
qed

text \<open>
  \<^bold>\<open>C1\<close> as stated fails: with the same bracketed address twice in one buffer, both spans
  are rewritten, the second is not left as it was.
\<close>

theorem rewrite_all_repeats_counterexample:
  "rewrite 7245 ''[::1]:7245 [::1]:7245'' = ''127.0.0.1:7245 127.0.0.1:7245''
   \<and> rewrite 7245 ''[::1]:7245 [::1]:7245'' \<noteq> ''127.0.0.1:7245 [::1]:7245''"
  by (simp add: eval_simps)

text \<open>A buffer with the port but no bracketed address.\<close>

theorem rewrite_identity_without_pattern_witness:
  "\<not> occurs 7245 ''Host: example.org:7245'' \<and>
   rewrite 7245 ''Host: example.org:7245'' = ''Host: example.org:7245''"
proof -
  have n: "\<not> occurs 7245 ''Host: example.org:7245''"
    by (simp add: occurs_iff_search eval_simps)
  show ?thesis using rewrite_identity_without_pattern [OF n] n by simp
qed

text \<open>
  \<^bold>\<open>C7\<close>. With target port 7245 the request with \<open>Host: [fe80::1]:7245\<close> is forwarded
  with \<open>Host: 127.0.0.1:7245\<close>, every other byte unchanged.
\<close>

theorem rewrite_host_header:
  "rewrite 7245
     (''GET / HTTP/1.1'' @ [CHR 0x0D, CHR 0x0A] @ ''Host: [fe80::1]:7245'' @
      [CHR 0x0D, CHR 0x0A, CHR 0x0D, CHR 0x0A])
   = ''GET / HTTP/1.1'' @ [CHR 0x0D, CHR 0x0A] @ ''Host: 127.0.0.1:7245'' @
     [CHR 0x0D, CHR 0x0A, CHR 0x0D, CHR 0x0A]"
  by (simp add: eval_simps)

text \<open>
  \<^bold>\<open>C10\<close>. The port is not anchored at a digit boundary: a buffer that addresses port
  72450 contains the pattern for target port 7245, and the rewrite fires on that prefix.
\<close>

theorem rewrite_unanchored_port:
  "occurs 7245 ''[::1]:72450'' \<and> rewrite 7245 ''[::1]:72450'' = ''127.0.0.1:72450''"
  by (simp add: occurs_iff_search eval_simps)


section \<open>Primitives\<close>

lemma tick_fields [simp]:
  "clock (tick w) = Suc (clock w)" "running (tick w) = running w" "port (tick w) = port w"
  "addr (tick w) = addr w" "registered (tick w) = registered w"
  "sel_closed (tick w) = sel_closed w" "opened (tick w) = opened w" "closed (tick w) = closed w"
  "delivered (tick w) = delivered w" "logged (tick w) = logged w"
  "poll_ticks (tick w) = poll_ticks w"
  by (simp_all add: tick_def)

lemma print_fields [simp]:
  "clock (print l w) = clock w" "running (print l w) = running w" "port (print l w) = port w"
  "addr (print l w) = addr w" "registered (print l w) = registered w"
  "sel_closed (print l w) = sel_closed w" "opened (print l w) = opened w"
  "closed (print l w) = closed w" "delivered (print l w) = delivered w"
  "logged (print l w) = logged w @ [l]" "poll_ticks (print l w) = poll_ticks w"
  by (simp_all add: print_def)

lemma unregister_fields [simp]:
  "registered (snd (sel_unregister w s)) = filter (\<lambda>kv. fst kv \<noteq> s) (registered w)"
  "closed (snd (sel_unregister w s)) = closed w"
  "poll_ticks (snd (sel_unregister w s)) = poll_ticks w"
proof -
  have "s \<notin> fst ` set (registered w) \<Longrightarrow> filter (\<lambda>kv. fst kv \<noteq> s) (registered w) = registered w"
    by (induction "registered w") (auto simp: filter_id_conv)
  then show "registered (snd (sel_unregister w s)) = filter (\<lambda>kv. fst kv \<noteq> s) (registered w)"
    by (simp add: sel_unregister_def)
qed (simp_all add: sel_unregister_def)

lemma unregister_absent:
  "s \<notin> fst ` set (registered w) \<Longrightarrow> snd (sel_unregister w s) = w"
  by (simp add: sel_unregister_def)

lemma close_fields [simp]:
  "registered (snd (sock_close env w s)) = registered w"
  "closed (snd (sock_close env w s)) = insert s (closed w)"
  "poll_ticks (snd (sock_close env w s)) = poll_ticks w"
  by (auto simp: sock_close_def Let_def split: option.splits)

lemma close_closed: "s \<in> closed w \<Longrightarrow> sock_close env w s = (Inr (), w)"
  by (simp add: sock_close_def)

lemma try_pass_unregister:
  "try_pass (sel_unregister w s) = (Returns (), snd (sel_unregister w s))"
  by (simp add: try_pass_def sel_unregister_def is_Exception_def)

lemma try_pass_close:
  "try_pass (sock_close env w s) = (Returns (), snd (sock_close env w s))"
  by (simp add: try_pass_def sock_close_def is_Exception_def Let_def split: option.splits)

lemma and_then_Returns [simp]: "and_then (Returns x, w) f = f x w"
  by (simp add: and_then_def)

lemma and_then_Raises [simp]: "and_then (Raises e, w) f = (Raises e, w)"
  by (simp add: and_then_def)

lemma and_then_Unfinished [simp]: "and_then (Unfinished, w) f = (Unfinished, w)"
  by (simp add: and_then_def)

lemma close_connection_eq:
  "close_connection env w client server = (Returns (), torn_down env w client server)"
  by (simp add: close_connection_def torn_down_def try_pass_unregister try_pass_close)

lemma torn_down_fields [simp]:
  "registered (torn_down env w client server)
     = filter (\<lambda>kv. fst kv \<noteq> client \<and> fst kv \<noteq> server) (registered w)"
  "closed (torn_down env w client server) = insert client (insert server (closed w))"
  "poll_ticks (torn_down env w client server) = poll_ticks w"
  by (auto simp: torn_down_def conj_commute)

lemma torn_down_again:
  "torn_down env (torn_down env w client server) client server = torn_down env w client server"
proof -
  let ?w = "torn_down env w client server"
  have 1: "snd (sel_unregister ?w client) = ?w"
    by (rule unregister_absent) auto
  have 2: "snd (sel_unregister ?w server) = ?w"
    by (rule unregister_absent) auto
  have 3: "sock_close env ?w client = (Inr (), ?w)"
    by (rule close_closed) simp
  have 4: "sock_close env ?w server = (Inr (), ?w)"
    by (rule close_closed) simp
  have "torn_down env ?w client server =
     snd (sock_close env (snd (sock_close env
            (snd (sel_unregister (snd (sel_unregister ?w client)) server)) client)) server)"
    by (simp only: torn_down_def)
  then show ?thesis by (simp only: 1 2 3 4 snd_conv)
qed

text \<open>
  \<^bold>\<open>C8\<close>. Whatever the state of the two sockets (registered or not, open or closed),
  teardown returns normally, leaves both sockets unregistered and closed, and a second
  teardown of the same pair returns normally again and changes nothing.
\<close>

theorem close_connection_twice:
  "fst (close_connection env w client server) = Returns ()
   \<and> client \<notin> fst ` set (registered (snd (close_connection env w client server)))
   \<and> server \<notin> fst ` set (registered (snd (close_connection env w client server)))
   \<and> client \<in> closed (snd (close_connection env w client server))
   \<and> server \<in> closed (snd (close_connection env w client server))
   \<and> close_connection env (snd (close_connection env w client server)) client server
       = (Returns (), snd (close_connection env w client server))"
  by (auto simp: close_connection_eq torn_down_again)

section \<open>The send loop\<close>

lemma bad_descriptor_simps [simp]:
  "cls bad_descriptor = OSError" "is_Exception bad_descriptor"
  by (simp_all add: bad_descriptor_def is_Exception_def)

lemma sock_send_cases:
  obtains (closed) "conn \<in> closed w" "sock_send env w conn chunk = (Inl bad_descriptor, w)"
  | (raises) e where "conn \<notin> closed w" "send_result env (clock w) conn = Inl e"
      "sock_send env w conn chunk = (Inl e, tick w)"
  | (sent) n where "conn \<notin> closed w" "send_result env (clock w) conn = Inr n"
      "sock_send env w conn chunk =
         (Inr (min n (length chunk)),
          (tick w)\<lparr>delivered := (delivered w)(conn := delivered w conn @ take (min n (length chunk)) chunk)\<rparr>)"
proof (cases "conn \<in> closed w")
  case True
  then have "sock_send env w conn chunk = (Inl bad_descriptor, w)"
    by (simp add: sock_send_def)
  with True show ?thesis by (rule closed)
next
  case False
  show ?thesis
  proof (cases "send_result env (clock w) conn")
    case (Inl e)
    then have "sock_send env w conn chunk = (Inl e, tick w)"
      using False by (simp add: sock_send_def)
    with False Inl show ?thesis by (rule raises)
  next
    case (Inr n)
    then have "sock_send env w conn chunk =
         (Inr (min n (length chunk)),
          (tick w)\<lparr>delivered := (delivered w)(conn := delivered w conn @ take (min n (length chunk)) chunk)\<rparr>)"
      using False by (simp add: sock_send_def Let_def)
    with False Inr show ?thesis by (rule sent)
  qed
qed

lemma only_sent_refl: "only_sent w w conn []"
  by (simp add: only_sent_def)

lemma only_sent_tick: "only_sent w (tick w) conn []"
  by (simp add: only_sent_def)

lemma only_sent_trans:
  "only_sent w w1 conn as \<Longrightarrow> only_sent w1 w2 conn bs \<Longrightarrow> only_sent w w2 conn (as @ bs)"
  by (simp add: only_sent_def)

lemma take_take_drop:
  "take a (drop t xs) @ take (k - (t + a)) (drop (t + a) xs) = take (a + (k - (t + a))) (drop t xs)"
proof -
  have "drop (t + a) xs = drop a (drop t xs)" by (simp add: add.commute)
  then show ?thesis by (simp add: take_add)
qed

lemma send_loop_spec:
  assumes "send_loop fuel env w conn msg sofar = (r, w')" "sofar \<le> length msg"
  shows "\<exists>k. sofar \<le> k \<and> k \<le> length msg
             \<and> only_sent w w' conn (take (k - sofar) (drop sofar msg))
             \<and> (r = Returns () \<longrightarrow> k = length msg)
             \<and> (\<forall>e. r = Raises e \<longrightarrow> k < length msg \<and> cls e \<noteq> BlockingIOError)"
  using assms
proof (induction fuel arbitrary: w sofar)
  case 0
  then have "w' = w" "r = Unfinished" by auto
  then show ?case using 0 by (intro exI [of _ sofar]) (simp add: only_sent_refl)
next
  case (Suc fuel)
  show ?case
  proof (cases "sofar < length msg")
    case False
    with Suc.prems have "w' = w" "r = Returns ()" "sofar = length msg" by auto
    then show ?thesis by (intro exI [of _ sofar]) (simp add: only_sent_refl)
  next
    case True
    let ?chunk = "drop sofar msg"
    show ?thesis
    proof (cases rule: sock_send_cases [of conn w env ?chunk])
      case closed
      with Suc.prems True have "w' = w" "r = Raises bad_descriptor" by auto
      then show ?thesis using True
        by (intro exI [of _ sofar]) (simp add: only_sent_refl bad_descriptor_def)
    next
      case (raises e)
      show ?thesis
      proof (cases "cls e = BlockingIOError")
        case False
        with raises Suc.prems True have "w' = tick w" "r = Raises e" by auto
        then show ?thesis using True False
          by (intro exI [of _ sofar]) (simp add: only_sent_tick)
      next
        case b: True
        with raises Suc.prems True
        have "send_loop fuel env (tick w) conn msg sofar = (r, w')" by auto
        from Suc.IH [OF this Suc.prems(2)] obtain k where k: "sofar \<le> k" "k \<le> length msg"
          "only_sent (tick w) w' conn (take (k - sofar) ?chunk)"
          "r = Returns () \<longrightarrow> k = length msg"
          "\<forall>e. r = Raises e \<longrightarrow> k < length msg \<and> cls e \<noteq> BlockingIOError"
          by blast
        have "only_sent w w' conn ([] @ take (k - sofar) ?chunk)"
          by (rule only_sent_trans [OF only_sent_tick k(3)])
        with k show ?thesis by (intro exI [of _ k]) simp
      qed
    next
      case (sent n)
      define a where "a = min n (length ?chunk)"
      define w1 where
        "w1 = (tick w)\<lparr>delivered := (delivered w)(conn := delivered w conn @ take a ?chunk)\<rparr>"
      have ss: "sock_send env w conn ?chunk = (Inr a, w1)"
        using sent(3) by (simp only: a_def w1_def)
      have unfold: "send_loop (Suc fuel) env w conn msg sofar =
          (if a = 0 then (Raises (Exn RuntimeError ''socket connection broken''), w1)
           else send_loop fuel env w1 conn msg (sofar + a))"
        using True by (simp add: ss)
      have step: "only_sent w w1 conn (take a ?chunk)"
        by (simp add: only_sent_def w1_def)
      show ?thesis
      proof (cases "a = 0")
        case z: True
        with unfold Suc.prems(1)
        have "w' = w1" "r = Raises (Exn RuntimeError ''socket connection broken'')" by auto
        then show ?thesis using True step z
          by (intro exI [of _ sofar]) simp
      next
        case nz: False
        have "a \<le> length ?chunk" by (simp add: a_def)
        then have le: "sofar + a \<le> length msg" using True by simp
        from unfold Suc.prems(1) nz
        have "send_loop fuel env w1 conn msg (sofar + a) = (r, w')" by simp
        from Suc.IH [OF this le] obtain k where k: "sofar + a \<le> k" "k \<le> length msg"
          "only_sent w1 w' conn (take (k - (sofar + a)) (drop (sofar + a) msg))"
          "r = Returns () \<longrightarrow> k = length msg"
          "\<forall>e. r = Raises e \<longrightarrow> k < length msg \<and> cls e \<noteq> BlockingIOError"
          by blast
        have "only_sent w w' conn (take a ?chunk @ take (k - (sofar + a)) (drop (sofar + a) msg))"
          by (rule only_sent_trans [OF step k(3)])
        moreover have "a + (k - (sofar + a)) = k - sofar" using k(1) by simp
        ultimately have "only_sent w w' conn (take (k - sofar) ?chunk)"
          by (simp only: take_take_drop)
        with k show ?thesis by (intro exI [of _ k]) simp
      qed
    qed
  qed
qed

lemma send_loop_cause:
  assumes "send_loop fuel env w conn msg sofar = (Raises e, w')"
  shows "send_failure env w' conn e"
  using assms
proof (induction fuel arbitrary: w sofar)
  case 0
  then show ?case by simp
next
  case (Suc fuel)
  show ?case
  proof (cases "sofar < length msg")
    case False
    with Suc.prems show ?thesis by simp
  next
    case True
    let ?chunk = "drop sofar msg"
    show ?thesis
    proof (cases rule: sock_send_cases [of conn w env ?chunk])
      case closed
      with Suc.prems True have "w' = w" "e = bad_descriptor" by auto
      with closed(1) show ?thesis by (simp add: send_failure_def)
    next
      case (raises x)
      show ?thesis
      proof (cases "cls x = BlockingIOError")
        case False
        with raises Suc.prems True have "w' = tick w" "e = x" by auto
        with raises(1,2) False show ?thesis by (simp add: send_failure_def)
      next
        case b: True
        with raises Suc.prems True
        have "send_loop fuel env (tick w) conn msg sofar = (Raises e, w')" by auto
        then show ?thesis by (rule Suc.IH)
      qed
    next
      case (sent n)
      define a where "a = min n (length ?chunk)"
      define w1 where
        "w1 = (tick w)\<lparr>delivered := (delivered w)(conn := delivered w conn @ take a ?chunk)\<rparr>"
      have ss: "sock_send env w conn ?chunk = (Inr a, w1)"
        using sent(3) by (simp only: a_def w1_def)
      have unfold: "send_loop (Suc fuel) env w conn msg sofar =
          (if a = 0 then (Raises (Exn RuntimeError ''socket connection broken''), w1)
           else send_loop fuel env w1 conn msg (sofar + a))"
        using True by (simp add: ss)
      show ?thesis
      proof (cases "a = 0")
        case z: True
        with unfold Suc.prems
        have w': "w' = w1" and e: "e = Exn RuntimeError ''socket connection broken''" by auto
        have "n = 0" using z True by (simp add: a_def)
        with sent(1,2) show ?thesis
          by (simp add: send_failure_def w' e w1_def)
      next
        case nz: False
        with unfold Suc.prems
        have "send_loop fuel env w1 conn msg (sofar + a) = (Raises e, w')" by simp
        then show ?thesis by (rule Suc.IH)
      qed
    qed
  qed
qed

lemma send_loop_unfinished:
  assumes "send_loop fuel env w conn msg sofar = (Unfinished, w')"
  shows "clock w' = clock w + fuel"
  using assms
proof (induction fuel arbitrary: w sofar)
  case 0
  then show ?case by simp
next
  case (Suc fuel)
  show ?case
  proof (cases "sofar < length msg")
    case False
    with Suc.prems show ?thesis by simp
  next
    case True
    let ?chunk = "drop sofar msg"
    show ?thesis
    proof (cases rule: sock_send_cases [of conn w env ?chunk])
      case closed
      with Suc.prems True show ?thesis by auto
    next
      case (raises x)
      show ?thesis
      proof (cases "cls x = BlockingIOError")
        case False
        with raises Suc.prems True show ?thesis by auto
      next
        case b: True
        with raises Suc.prems True
        have "send_loop fuel env (tick w) conn msg sofar = (Unfinished, w')" by auto
        from Suc.IH [OF this] show ?thesis by simp
      qed
    next
      case (sent n)
      define a where "a = min n (length ?chunk)"
      define w1 where
        "w1 = (tick w)\<lparr>delivered := (delivered w)(conn := delivered w conn @ take a ?chunk)\<rparr>"
      have ss: "sock_send env w conn ?chunk = (Inr a, w1)"
        using sent(3) by (simp only: a_def w1_def)
      have unfold: "send_loop (Suc fuel) env w conn msg sofar =
          (if a = 0 then (Raises (Exn RuntimeError ''socket connection broken''), w1)
           else send_loop fuel env w1 conn msg (sofar + a))"
        using True by (simp add: ss)
      show ?thesis
      proof (cases "a = 0")
        case True
        with unfold Suc.prems show ?thesis by simp
      next
        case False
        with unfold Suc.prems
        have "send_loop fuel env w1 conn msg (sofar + a) = (Unfinished, w')" by simp
        from Suc.IH [OF this] show ?thesis by (simp add: w1_def)
      qed
    qed
  qed
qed

lemma send_loop_finishes:
  assumes "\<forall>t e. send_result env t conn = Inl e \<longrightarrow> cls e \<noteq> BlockingIOError"
    and "length msg - sofar < fuel"
  shows "fst (send_loop fuel env w conn msg sofar) \<noteq> Unfinished"
  using assms(2)
proof (induction fuel arbitrary: w sofar)
  case 0
  then show ?case by simp
next
  case (Suc fuel)
  show ?case
  proof (cases "sofar < length msg")
    case False
    then show ?thesis by simp
  next
    case True
    show ?thesis
    proof (cases rule: sock_send_cases [of conn w env "drop sofar msg"])
      case closed
      then show ?thesis using True by simp
    next
      case (raises e)
      with assms(1) have "cls e \<noteq> BlockingIOError" by blast
      with raises True show ?thesis by simp
    next
      case (sent n)
      define a where "a = min n (length (drop sofar msg))"
      have ss: "\<exists>w1. sock_send env w conn (drop sofar msg) = (Inr a, w1)"
        using sent(3) by (simp only: a_def) blast
      then obtain w1 where ss: "sock_send env w conn (drop sofar msg) = (Inr a, w1)" ..
      have unfold: "send_loop (Suc fuel) env w conn msg sofar =
          (if a = 0 then (Raises (Exn RuntimeError ''socket connection broken''), w1)
           else send_loop fuel env w1 conn msg (sofar + a))"
        using True by (simp add: ss)
      show ?thesis
      proof (cases "a = 0")
        case True
        with unfold show ?thesis by simp
      next
        case False
        then have "length msg - (sofar + a) < fuel" using Suc.prems True by simp
        from Suc.IH [OF this] unfold False show ?thesis by simp
      qed
    qed
  qed
qed

section \<open>safe_send\<close>

lemma safe_send_cases [consumes 1, case_names complete unfinished caught passed]:
  assumes "msg \<noteq> []"
  obtains (complete) w1 where "send_loop fuel env (print (sending msg) w) conn msg 0 = (Returns (), w1)"
      "safe_send fuel env w conn msg = (Returns (), w1)"
  | (unfinished) w1 where "send_loop fuel env (print (sending msg) w) conn msg 0 = (Unfinished, w1)"
      "safe_send fuel env w conn msg = (Unfinished, w1)"
  | (caught) e w1 where "send_loop fuel env (print (sending msg) w) conn msg 0 = (Raises e, w1)"
      "is_Exception e"
      "safe_send fuel env w conn msg = (Returns (), print (''Error in safe_send: '' @ exn_msg e) w1)"
  | (passed) e w1 where "send_loop fuel env (print (sending msg) w) conn msg 0 = (Raises e, w1)"
      "\<not> is_Exception e" "safe_send fuel env w conn msg = (Raises e, w1)"
proof -
  obtain r w1 where l: "send_loop fuel env (print (sending msg) w) conn msg 0 = (r, w1)"
    by (cases "send_loop fuel env (print (sending msg) w) conn msg 0") auto
  have s: "safe_send fuel env w conn msg =
      (case (r, w1) of
         (Raises e, w1) \<Rightarrow>
            if is_Exception e
            then (Returns (), print (''Error in safe_send: '' @ exn_msg e) w1)
            else (Raises e, w1)
       | r \<Rightarrow> r)"
    using assms l by (simp add: safe_send_def sending_def)
  show ?thesis
  proof (cases r)
    case (Returns u)
    with l s show ?thesis by (intro complete [of w1]) simp_all
  next
    case Unfinished
    with l s show ?thesis by (intro unfinished [of w1]) simp_all
  next
    case (Raises e)
    show ?thesis
    proof (cases "is_Exception e")
      case True
      with Raises l s show ?thesis by (intro caught [of e w1]) simp_all
    next
      case False
      with Raises l s show ?thesis by (intro passed [of e w1]) simp_all
    qed
  qed
qed

lemma safe_send_empty: "safe_send fuel env w conn [] = (Returns (), w)"
  by (simp add: safe_send_def)

lemma safe_send_raises:
  assumes "safe_send fuel env w conn msg = (Raises e, w')"
  shows "\<not> is_Exception e"
proof (cases "msg = []")
  case True
  with assms show ?thesis by (simp add: safe_send_empty)
next
  case False
  then show ?thesis using assms by (cases rule: safe_send_cases [of msg fuel env w conn]) auto
qed

lemma only_sent_print:
  "only_sent (print l w) w1 conn bs \<Longrightarrow>
     delivered w1 conn = delivered w conn @ bs
     \<and> (\<forall>s. s \<noteq> conn \<longrightarrow> delivered w1 s = delivered w s)
     \<and> logged w1 = logged w @ [l] \<and> registered w1 = registered w \<and> closed w1 = closed w
     \<and> poll_ticks w1 = poll_ticks w"
  by (simp add: only_sent_def)

lemma safe_send_spec:
  assumes "safe_send fuel env w conn msg = (r, w')" and "msg \<noteq> []"
  shows "\<exists>k\<le>length msg.
           delivered w' conn = delivered w conn @ take k msg
           \<and> (\<forall>s. s \<noteq> conn \<longrightarrow> delivered w' s = delivered w s)
           \<and> registered w' = registered w \<and> closed w' = closed w
           \<and> poll_ticks w' = poll_ticks w
           \<and> (r = Returns () \<longrightarrow>
                 k = length msg \<and> logged w' = logged w @ [sending msg]
               \<or> k < length msg
                 \<and> (\<exists>e. is_Exception e
                      \<and> logged w' = logged w @ [sending msg, ''Error in safe_send: '' @ exn_msg e]))"
  using assms(2)
proof (cases rule: safe_send_cases [of msg fuel env w conn])
  case (complete w1)
  from send_loop_spec [OF complete(1)] obtain k where k: "k \<le> length msg"
    "only_sent (print (sending msg) w) w1 conn (take k msg)" "k = length msg"
    by auto
  from complete(2) assms(1) have "w' = w1" by simp
  with only_sent_print [OF k(2)] k(1,3) show ?thesis
    by (intro exI [of _ k]) simp
next
  case (unfinished w1)
  from send_loop_spec [OF unfinished(1)] obtain k where k: "k \<le> length msg"
    "only_sent (print (sending msg) w) w1 conn (take k msg)"
    by auto
  from unfinished(2) assms(1) have "w' = w1" "r = Unfinished" by simp_all
  with only_sent_print [OF k(2)] k(1) show ?thesis
    by (intro exI [of _ k]) simp
next
  case (caught e w1)
  from send_loop_spec [OF caught(1)] obtain k where k: "k \<le> length msg"
    "only_sent (print (sending msg) w) w1 conn (take k msg)" "k < length msg"
    by auto
  from caught(3) assms(1) have w': "w' = print (''Error in safe_send: '' @ exn_msg e) w1" by simp
  have "logged w' = logged w @ [sending msg, ''Error in safe_send: '' @ exn_msg e]"
    using only_sent_print [OF k(2)] w' by simp
  with caught(2) have "\<exists>e. is_Exception e
      \<and> logged w' = logged w @ [sending msg, ''Error in safe_send: '' @ exn_msg e]"
    by blast
  with only_sent_print [OF k(2)] k(1,3) w' show ?thesis
    by (intro exI [of _ k]) simp
next
  case (passed e w1)
  from send_loop_spec [OF passed(1)] obtain k where k: "k \<le> length msg"
    "only_sent (print (sending msg) w) w1 conn (take k msg)"
    by auto
  from passed(3) assms(1) have "w' = w1" "r = Raises e" by simp_all
  with only_sent_print [OF k(2)] k(1) show ?thesis
    by (intro exI [of _ k]) simp
qed

lemma send_failure_print:
  "send_failure env (print l w) conn e = send_failure env w conn e"
  by (simp add: send_failure_def)

lemma safe_send_cause:
  assumes "safe_send fuel env w conn msg = (Returns (), w')" and "msg \<noteq> []"
    and "logged w' \<noteq> logged w @ [sending msg]"
  shows "\<exists>e. is_Exception e \<and> send_failure env w' conn e
           \<and> logged w' = logged w @ [sending msg, ''Error in safe_send: '' @ exn_msg e]"
  using assms(2)
proof (cases rule: safe_send_cases [of msg fuel env w conn])
  case (complete w1)
  from send_loop_spec [OF complete(1)] obtain bs where
    "only_sent (print (sending msg) w) w1 conn bs" by auto
  then have "logged w1 = logged w @ [sending msg]"
    by (simp add: only_sent_def)
  with complete(2) assms(1,3) show ?thesis by simp
next
  case (unfinished w1)
  with assms(1) show ?thesis by simp
next
  case (caught e w1)
  from send_loop_spec [OF caught(1)] obtain bs where
    "only_sent (print (sending msg) w) w1 conn bs" by auto
  then have l: "logged w1 = logged w @ [sending msg]"
    by (simp add: only_sent_def)
  from caught(3) assms(1) have w': "w' = print (''Error in safe_send: '' @ exn_msg e) w1" by simp
  have "send_failure env w' conn e"
    using send_loop_cause [OF caught(1)] by (simp add: w' send_failure_print)
  moreover have "logged w' = logged w @ [sending msg, ''Error in safe_send: '' @ exn_msg e]"
    using l w' by simp
  ultimately show ?thesis using caught(2) by blast
next
  case (passed e w1)
  with assms(1) show ?thesis by simp
qed

lemma safe_send_unfinished:
  assumes "safe_send fuel env w conn msg = (Unfinished, w')"
  shows "clock w' = clock w + fuel"
proof (cases "msg = []")
  case True
  with assms show ?thesis by (simp add: safe_send_empty)
next
  case False
  then show ?thesis
  proof (cases rule: safe_send_cases [of msg fuel env w conn])
    case (unfinished w1)
    with assms have "w' = w1" by simp
    with send_loop_unfinished [OF unfinished(1)] show ?thesis by simp
  qed (use assms in simp_all)
qed

lemma safe_send_finishes:
  assumes "\<forall>t e. send_result env t conn = Inl e \<longrightarrow> cls e \<noteq> BlockingIOError"
    and "length msg < fuel"
  shows "fst (safe_send fuel env w conn msg) \<noteq> Unfinished"
proof (cases "msg = []")
  case True
  then show ?thesis by (simp add: safe_send_empty)
next
  case False
  have l: "fst (send_loop fuel env (print (sending msg) w) conn msg 0) \<noteq> Unfinished"
    using assms by (intro send_loop_finishes) simp_all
  from False show ?thesis
    using l by (cases rule: safe_send_cases [of msg fuel env w conn]) simp_all
qed

text \<open>
  \<^bold>\<open>C3\<close>, as the code has it. For a non-empty buffer \<open>safe_send\<close> never lets an
  \<open>Exception\<close> reach its caller. The socket has accepted a prefix of the buffer, in order.
  When the call returns, either that prefix is the whole buffer and nothing but the first
  line was printed, or it is shorter and the loop was ended by a send that raised something
  other than \<open>BlockingIOError\<close> (a send on a closed socket included) or by a send that
  took 0 bytes, turned into \<open>RuntimeError\<close>: that very exception has been printed and
  swallowed. A \<open>BlockingIOError\<close> never ends the loop: the call is cut off only after
  \<open>fuel\<close> sends, and not at all with more fuel than the buffer is long when no send
  blocks.
\<close>

theorem safe_send_never_signals:
  assumes "safe_send fuel env w conn msg = (r, w')" and "msg \<noteq> []"
  shows "(\<forall>e. r = Raises e \<longrightarrow> \<not> is_Exception e)
     \<and> (\<exists>k\<le>length msg.
           delivered w' conn = delivered w conn @ take k msg
           \<and> (r = Returns () \<longrightarrow>
                 k = length msg \<and> logged w' = logged w @ [sending msg]
               \<or> k < length msg
                 \<and> (\<exists>e. is_Exception e \<and> send_failure env w' conn e
                      \<and> logged w' = logged w @ [sending msg, ''Error in safe_send: '' @ exn_msg e])))
     \<and> (r = Unfinished \<longrightarrow> clock w' = clock w + fuel)
     \<and> ((\<forall>t e. send_result env t conn = Inl e \<longrightarrow> cls e \<noteq> BlockingIOError) \<and> length msg < fuel
          \<longrightarrow> r \<noteq> Unfinished)"
proof (intro conjI)
  show "\<forall>e. r = Raises e \<longrightarrow> \<not> is_Exception e"
    using assms(1) safe_send_raises by blast
  from safe_send_spec [OF assms] obtain k where k: "k \<le> length msg"
    "delivered w' conn = delivered w conn @ take k msg"
    "r = Returns () \<longrightarrow>
        k = length msg \<and> logged w' = logged w @ [sending msg]
      \<or> k < length msg
        \<and> (\<exists>e. is_Exception e
             \<and> logged w' = logged w @ [sending msg, ''Error in safe_send: '' @ exn_msg e])"
    by blast
  have "r = Returns () \<longrightarrow>
        k = length msg \<and> logged w' = logged w @ [sending msg]
      \<or> k < length msg
        \<and> (\<exists>e. is_Exception e \<and> send_failure env w' conn e
             \<and> logged w' = logged w @ [sending msg, ''Error in safe_send: '' @ exn_msg e])"
  proof
    assume r: "r = Returns ()"
    show "k = length msg \<and> logged w' = logged w @ [sending msg]
      \<or> k < length msg
        \<and> (\<exists>e. is_Exception e \<and> send_failure env w' conn e
             \<and> logged w' = logged w @ [sending msg, ''Error in safe_send: '' @ exn_msg e])"
    proof (cases "logged w' = logged w @ [sending msg]")
      case True
      with k(3) r show ?thesis by auto
    next
      case False
      with k(3) r have "k < length msg" by auto
      moreover have "\<exists>e. is_Exception e \<and> send_failure env w' conn e
             \<and> logged w' = logged w @ [sending msg, ''Error in safe_send: '' @ exn_msg e]"
        using safe_send_cause [OF _ assms(2) False] assms(1) r by simp
      ultimately show ?thesis by blast
    qed
  qed
  with k(1,2) show "\<exists>k\<le>length msg.
           delivered w' conn = delivered w conn @ take k msg
           \<and> (r = Returns () \<longrightarrow>
                 k = length msg \<and> logged w' = logged w @ [sending msg]
               \<or> k < length msg
                 \<and> (\<exists>e. is_Exception e \<and> send_failure env w' conn e
                      \<and> logged w' = logged w @ [sending msg, ''Error in safe_send: '' @ exn_msg e]))"
    by blast
  show "r = Unfinished \<longrightarrow> clock w' = clock w + fuel"
    using safe_send_unfinished assms(1) by blast
  show "(\<forall>t e. send_result env t conn = Inl e \<longrightarrow> cls e \<noteq> BlockingIOError) \<and> length msg < fuel
          \<longrightarrow> r \<noteq> Unfinished"
    using safe_send_finishes [of env conn msg fuel w] assms(1) by auto
qed

lemmas io_simps = quiet_env_def world0_def safe_send_def sock_send_def sock_recv_def
  sock_close_def sock_accept_def create_connection_def sel_register_def sel_unregister_def
  sel_select_def lift_def tick_def print_def is_Exception_def bad_descriptor_def
  str_nat.simps digit_char_def Let_def

text \<open>
  \<^bold>\<open>C3\<close> as stated fails: a socket that takes 0 bytes makes \<open>safe_send\<close> return
  normally with nothing of the buffer sent; the failure is printed, not signalled.
\<close>

theorem safe_send_zero_progress_counterexample:
  "fst (safe_send 1 quiet_env world0 7 ''abc'') = Returns ()
   \<and> delivered (snd (safe_send 1 quiet_env world0 7 ''abc'')) 7 = []
   \<and> logged (snd (safe_send 1 quiet_env world0 7 ''abc''))
       = [''Sending 3 bytes'', ''Error in safe_send: socket connection broken'']"
  by (simp add: io_simps)

text \<open>
  A socket that takes two bytes at a time accepts the whole buffer.
\<close>

theorem safe_send_never_signals_witness:
  "''abc'' \<noteq> []
   \<and> fst (safe_send 4 two_at_a_time world0 7 ''abc'') = Returns ()
   \<and> delivered (snd (safe_send 4 two_at_a_time world0 7 ''abc'')) 7 = ''abc''
   \<and> logged (snd (safe_send 4 two_at_a_time world0 7 ''abc'')) = [''Sending 3 bytes'']"
proof -
  let ?r = "safe_send 4 two_at_a_time world0 7 ''abc''"
  have ne: "''abc'' \<noteq> []" by simp
  have run: "?r = (fst ?r, snd ?r)" by simp
  have never: "\<forall>t e. send_result two_at_a_time t 7 = Inl e \<longrightarrow> cls e \<noteq> BlockingIOError"
    by (simp add: two_at_a_time_def quiet_env_def)
  have "fst ?r \<noteq> Unfinished"
    using safe_send_never_signals [OF run ne] never by simp
  moreover have "fst ?r = Returns ()"
    by (simp add: two_at_a_time_def io_simps eval_nat_numeral)
  moreover have "delivered (snd ?r) 7 = ''abc''"
    by (simp add: two_at_a_time_def io_simps eval_nat_numeral)
  moreover have "logged (snd ?r) = [''Sending 3 bytes'']"
    by (simp add: two_at_a_time_def io_simps eval_nat_numeral)
  ultimately show ?thesis by simp
qed

section \<open>Handlers\<close>

lemma unregister_more_fields [simp]:
  "logged (snd (sel_unregister w s)) = logged w"
  "delivered (snd (sel_unregister w s)) = delivered w"
  by (simp_all add: sel_unregister_def)

lemma close_more_fields [simp]:
  "logged (snd (sock_close env w s)) = logged w"
  "delivered (snd (sock_close env w s)) = delivered w"
  by (simp_all add: sock_close_def Let_def split: option.splits)

lemma torn_down_more_fields [simp]:
  "logged (torn_down env w client server) = logged w"
  "delivered (torn_down env w client server) = delivered w"
  by (simp_all add: torn_down_def)

lemma pair_torn_down_torn_down: "pair_torn_down (torn_down env w client server) client server"
  by (auto simp: pair_torn_down_def)

lemma handler_except_simps:
  "handler_except lost failed env client server (Returns u, w) = (Returns u, w)"
  "handler_except lost failed env client server (Unfinished, w) = (Unfinished, w)"
  "handler_except lost failed env client server (Raises e, w) =
     (if cls e = ConnectionResetError \<or> cls e = ConnectionAbortedError
      then (Returns (), torn_down env (print lost w) client server)
      else if is_Exception e
      then (Returns (), torn_down env (print (failed @ exn_msg e) w) client server)
      else (Raises e, w))"
  by (simp_all add: handler_except_def close_connection_eq)

lemma handler_except_safe_send:
  "handler_except lost failed env client server (safe_send fuel env w conn msg)
     = safe_send fuel env w conn msg"
proof (cases "safe_send fuel env w conn msg")
  case (Pair r w')
  show ?thesis
  proof (cases r)
    case (Raises e)
    with Pair have "\<not> is_Exception e" by (auto dest: safe_send_raises)
    then have "cls e = KeyboardInterrupt" by (simp add: is_Exception_def)
    with Pair Raises show ?thesis by (simp add: handler_except_simps is_Exception_def)
  qed (simp_all add: Pair handler_except_simps)
qed

lemma sock_recv_world:
  assumes "sock_recv env w s n = (x, w1)"
  shows "w1 = w \<or> w1 = tick w"
proof (cases "s \<in> closed w")
  case True
  with assms show ?thesis by (simp add: sock_recv_def)
next
  case False
  with assms show ?thesis
    by (cases "recv_result env (clock w) s") (simp_all add: sock_recv_def)
qed

lemma sock_recv_fields:
  assumes "sock_recv env w s n = (x, w1)"
  shows "registered w1 = registered w" "closed w1 = closed w" "delivered w1 = delivered w"
    "logged w1 = logged w" "poll_ticks w1 = poll_ticks w" "port w1 = port w"
  using sock_recv_world [OF assms] by auto

lemma read_from_client_data:
  assumes "sock_recv env w client 4096 = (Inr data, w1)" "data \<noteq> []"
  shows "read_from_client fuel env w client server =
           safe_send fuel env
             (print (''Client -> Server: '' @ str_nat (length (rewrite (port w1) data)) @ '' bytes'') w1)
             server (rewrite (port w1) data)"
  using assms by (simp add: read_from_client_def lift_def Let_def handler_except_safe_send)

lemma read_from_server_data:
  assumes "sock_recv env w server 4096 = (Inr data, w1)" "data \<noteq> []"
  shows "read_from_server fuel env w client server =
           safe_send fuel env
             (print (''Server -> Client: '' @ str_nat (length data) @ '' bytes'') w1) client data"
  using assms by (simp add: read_from_server_def lift_def handler_except_safe_send)

lemma read_from_client_error:
  assumes "sock_recv env w client 4096 = (Inl e, w1)" "is_Exception e"
  shows "read_from_client fuel env w client server =
           (Returns (), torn_down env (print (read_error_line ''Client connection lost'' ''Error reading from client: '' e) w1) client server)"
  using assms by (simp add: read_from_client_def lift_def handler_except_simps read_error_line_def)

lemma read_from_server_error:
  assumes "sock_recv env w server 4096 = (Inl e, w1)" "is_Exception e"
  shows "read_from_server fuel env w client server =
           (Returns (), torn_down env (print (read_error_line ''Server connection lost'' ''Error reading from server: '' e) w1) client server)"
  using assms by (simp add: read_from_server_def lift_def handler_except_simps read_error_line_def)

lemma read_from_client_eof:
  assumes "sock_recv env w client 4096 = (Inr [], w1)"
  shows "read_from_client fuel env w client server =
           (Returns (), torn_down env (print ''Client closed connection'' w1) client server)"
  using assms by (simp add: read_from_client_def lift_def handler_except_simps close_connection_eq)

lemma read_from_server_eof:
  assumes "sock_recv env w server 4096 = (Inr [], w1)"
  shows "read_from_server fuel env w client server =
           (Returns (), torn_down env (print ''Server closed connection'' w1) client server)"
  using assms by (simp add: read_from_server_def lift_def handler_except_simps close_connection_eq)

text \<open>
  \<^bold>\<open>C6\<close>. What \<open>read_from_server\<close> reads from the upstream socket is what it hands
  to the client socket: the client has accepted a prefix of the very bytes read, nothing else
  was sent to any socket, and on a normal return the prefix is the whole buffer unless
  \<open>safe_send\<close> printed an error.
\<close>

theorem read_from_server_unmodified:
  assumes "sock_recv env w server 4096 = (Inr data, w1)" and "data \<noteq> []"
    and "read_from_server fuel env w client server = (r, w')"
  shows "\<exists>k\<le>length data.
           delivered w' client = delivered w client @ take k data
           \<and> (\<forall>s. s \<noteq> client \<longrightarrow> delivered w' s = delivered w s)
           \<and> (r = Returns () \<longrightarrow>
                 k = length data
               \<or> (\<exists>e. is_Exception e \<and> last (logged w') = ''Error in safe_send: '' @ exn_msg e))"
proof -
  let ?w2 = "print (''Server -> Client: '' @ str_nat (length data) @ '' bytes'') w1"
  have "safe_send fuel env ?w2 client data = (r, w')"
    using read_from_server_data [OF assms(1,2)] assms(3) by simp
  from safe_send_spec [OF this assms(2)] obtain k where k: "k \<le> length data"
    "delivered w' client = delivered ?w2 client @ take k data"
    "\<forall>s. s \<noteq> client \<longrightarrow> delivered w' s = delivered ?w2 s"
    "r = Returns () \<longrightarrow>
        k = length data \<and> logged w' = logged ?w2 @ [sending data]
      \<or> k < length data
        \<and> (\<exists>e. is_Exception e
             \<and> logged w' = logged ?w2 @ [sending data, ''Error in safe_send: '' @ exn_msg e])"
    by blast
  have d: "delivered ?w2 = delivered w"
    using sock_recv_fields(3) [OF assms(1)] by simp
  have "r = Returns () \<longrightarrow>
          k = length data
        \<or> (\<exists>e. is_Exception e \<and> last (logged w') = ''Error in safe_send: '' @ exn_msg e)"
    using k(4) by auto
  with k(1,2,3) d show ?thesis by (intro exI [of _ k]) simp
qed

lemmas env_simps = quiet_env_def world0_def sock_send_def sock_recv_def
  sock_close_def sock_accept_def create_connection_def sel_register_def sel_unregister_def
  sel_select_def lift_def tick_def print_def is_Exception_def bad_descriptor_def Let_def

text \<open>
  An upstream answer that contains the pattern reaches the client unchanged.
\<close>

theorem read_from_server_unmodified_witness:
  "sock_recv answering paired 2 4096 = (Inr ''Host: [::1]:7245'', tick paired)
   \<and> ''Host: [::1]:7245'' \<noteq> []
   \<and> fst (read_from_server 3 answering paired 1 2) = Returns ()
   \<and> delivered (snd (read_from_server 3 answering paired 1 2)) 1 = ''Host: [::1]:7245''
   \<and> delivered (snd (read_from_server 3 answering paired 1 2)) 2 = []"
proof -
  let ?r = "read_from_server 3 answering paired 1 2"
  have recv: "sock_recv answering paired 2 4096 = (Inr ''Host: [::1]:7245'', tick paired)"
    by (simp add: answering_def paired_def quiet_env_def world0_def sock_recv_def)
  have ne: "''Host: [::1]:7245'' \<noteq> []" by simp
  have run: "?r = (fst ?r, snd ?r)" by simp
  from read_from_server_unmodified [OF recv ne run]
  have other: "delivered (snd ?r) 2 = delivered paired 2" by auto
  have eq: "?r = safe_send 3 answering
      (print (''Server -> Client: '' @ str_nat (length ''Host: [::1]:7245'') @ '' bytes'')
         (tick paired)) 1 ''Host: [::1]:7245''"
    by (rule read_from_server_data [OF recv ne])
  have "fst ?r = Returns ()"
    unfolding eq
    by (simp add: safe_send_def answering_def paired_def env_simps eval_nat_numeral)
  moreover have "delivered (snd ?r) 1 = ''Host: [::1]:7245''"
    unfolding eq
    by (simp add: safe_send_def answering_def paired_def env_simps eval_nat_numeral)
  moreover have "delivered paired 2 = []"
    by (simp add: paired_def world0_def)
  ultimately show ?thesis using recv other by simp
qed

lemma safe_send_frame:
  assumes "safe_send fuel env w conn msg = (r, w')"
  shows "registered w' = registered w \<and> closed w' = closed w \<and> poll_ticks w' = poll_ticks w"
proof (cases "msg = []")
  case True
  with assms show ?thesis by (simp add: safe_send_empty)
next
  case False
  from safe_send_spec [OF assms False] show ?thesis by blast
qed

text \<open>
  \<^bold>\<open>C4\<close>, as the code has it. A read that raises any \<open>Exception\<close>, reset and abort
  or not, makes the handler print a line and tear the pair down: both sockets end up
  unregistered and closed. A send error is another matter: after a non-empty read the
  handler calls \<open>safe_send\<close>, which keeps every \<open>Exception\<close> to itself, so whatever
  the send does the handler sees no error and leaves the registrations and the sockets as
  they were.
\<close>

theorem read_errors_tear_down:
  assumes "read_from_client fuel env w client server = (r, w')"
    and "read_from_server fuel env w client server = (r2, w2)"
  shows "(\<forall>e w1. sock_recv env w client 4096 = (Inl e, w1) \<and> is_Exception e \<longrightarrow>
            r = Returns () \<and> pair_torn_down w' client server
            \<and> logged w' = logged w @
                 [read_error_line ''Client connection lost'' ''Error reading from client: '' e])
       \<and> (\<forall>e w1. sock_recv env w server 4096 = (Inl e, w1) \<and> is_Exception e \<longrightarrow>
            r2 = Returns () \<and> pair_torn_down w2 client server
            \<and> logged w2 = logged w @
                 [read_error_line ''Server connection lost'' ''Error reading from server: '' e])
       \<and> (\<forall>data w1. sock_recv env w client 4096 = (Inr data, w1) \<and> data \<noteq> [] \<longrightarrow>
            registered w' = registered w \<and> closed w' = closed w
            \<and> (\<forall>e. r = Raises e \<longrightarrow> \<not> is_Exception e))
       \<and> (\<forall>data w1. sock_recv env w server 4096 = (Inr data, w1) \<and> data \<noteq> [] \<longrightarrow>
            registered w2 = registered w \<and> closed w2 = closed w
            \<and> (\<forall>e. r2 = Raises e \<longrightarrow> \<not> is_Exception e))"
proof (intro conjI allI impI)
  fix e w1
  assume a: "sock_recv env w client 4096 = (Inl e, w1) \<and> is_Exception e"
  then have recv: "sock_recv env w client 4096 = (Inl e, w1)" and ex: "is_Exception e" by simp_all
  let ?l = "read_error_line ''Client connection lost'' ''Error reading from client: '' e"
  have eq: "(r, w') = (Returns (), torn_down env (print ?l w1) client server)"
    using read_from_client_error [OF recv ex, of fuel server] assms(1) by simp
  from eq show "r = Returns ()" by simp
  from eq show "pair_torn_down w' client server"
    by (simp add: pair_torn_down_torn_down)
  from eq show "logged w' = logged w @ [?l]"
    using sock_recv_fields(4) [OF recv] by simp
next
  fix e w1
  assume a: "sock_recv env w server 4096 = (Inl e, w1) \<and> is_Exception e"
  then have recv: "sock_recv env w server 4096 = (Inl e, w1)" and ex: "is_Exception e" by simp_all
  let ?l = "read_error_line ''Server connection lost'' ''Error reading from server: '' e"
  have eq: "(r2, w2) = (Returns (), torn_down env (print ?l w1) client server)"
    using read_from_server_error [OF recv ex, of fuel client] assms(2) by simp
  from eq show "r2 = Returns ()" by simp
  from eq show "pair_torn_down w2 client server"
    by (simp add: pair_torn_down_torn_down)
  from eq show "logged w2 = logged w @ [?l]"
    using sock_recv_fields(4) [OF recv] by simp
next
  fix data w1
  assume a: "sock_recv env w client 4096 = (Inr data, w1) \<and> data \<noteq> []"
  then have recv: "sock_recv env w client 4096 = (Inr data, w1)" and ne: "data \<noteq> []"
    by simp_all
  let ?w = "print (''Client -> Server: '' @ str_nat (length (rewrite (port w1) data)) @ '' bytes'') w1"
  have s: "safe_send fuel env ?w server (rewrite (port w1) data) = (r, w')"
    using read_from_client_data [OF recv ne, of fuel server] assms(1) by simp
  from safe_send_frame [OF s] sock_recv_fields(1,2) [OF recv]
  show "registered w' = registered w" "closed w' = closed w" by simp_all
  show "\<And>e. r = Raises e \<Longrightarrow> \<not> is_Exception e"
    using s safe_send_raises by blast
next
  fix data w1
  assume a: "sock_recv env w server 4096 = (Inr data, w1) \<and> data \<noteq> []"
  then have recv: "sock_recv env w server 4096 = (Inr data, w1)" and ne: "data \<noteq> []"
    by simp_all
  let ?w = "print (''Server -> Client: '' @ str_nat (length data) @ '' bytes'') w1"
  have s: "safe_send fuel env ?w client data = (r2, w2)"
    using read_from_server_data [OF recv ne, of fuel client] assms(2) by simp
  from safe_send_frame [OF s] sock_recv_fields(1,2) [OF recv]
  show "registered w2 = registered w" "closed w2 = closed w" by simp_all
  show "\<And>e. r2 = Raises e \<Longrightarrow> \<not> is_Exception e"
    using s safe_send_raises by blast
qed

text \<open>
  \<^bold>\<open>C4\<close> as stated fails: when the send to the upstream socket raises
  \<open>[Errno 32] Broken pipe\<close>, the error is printed by \<open>safe_send\<close> and the handler returns
  with both sockets still registered and open.
\<close>

theorem send_error_keeps_pair_counterexample:
  "fst (read_from_client 3 broken_pipe paired 1 2) = Returns ()
   \<and> registered (snd (read_from_client 3 broken_pipe paired 1 2))
       = [(1, ReadFromClient 1 2), (2, ReadFromServer 1 2)]
   \<and> closed (snd (read_from_client 3 broken_pipe paired 1 2)) = {}
   \<and> \<not> pair_torn_down (snd (read_from_client 3 broken_pipe paired 1 2)) 1 2
   \<and> logged (snd (read_from_client 3 broken_pipe paired 1 2))
       = [''Client -> Server: 4 bytes'', ''Sending 4 bytes'',
          ''Error in safe_send: [Errno 32] Broken pipe'']"
proof -
  let ?r = "read_from_client 3 broken_pipe paired 1 2"
  have recv: "sock_recv broken_pipe paired 1 4096 = (Inr ''ping'', tick paired)"
    by (simp add: broken_pipe_def paired_def quiet_env_def world0_def sock_recv_def)
  have ne: "''ping'' \<noteq> []" by simp
  have p: "port (tick paired) = 7245"
    by (simp add: paired_def world0_def)
  have rw: "rewrite 7245 ''ping'' = ''ping''"
    by (simp add: eval_simps)
  have eq: "?r = safe_send 3 broken_pipe
      (print (''Client -> Server: '' @ str_nat (length ''ping'') @ '' bytes'') (tick paired))
      2 ''ping''"
    using read_from_client_data [OF recv ne, of 3 2] by (simp only: p rw)
  have 1: "fst ?r = Returns ()"
    unfolding eq by (simp add: broken_pipe_def paired_def io_simps eval_nat_numeral)
  have 2: "registered (snd ?r) = [(1, ReadFromClient 1 2), (2, ReadFromServer 1 2)]"
    unfolding eq by (simp add: broken_pipe_def paired_def io_simps eval_nat_numeral)
  have 3: "closed (snd ?r) = {}"
    unfolding eq by (simp add: broken_pipe_def paired_def io_simps eval_nat_numeral)
  have 4: "logged (snd ?r) = [''Client -> Server: 4 bytes'', ''Sending 4 bytes'',
          ''Error in safe_send: [Errno 32] Broken pipe'']"
    unfolding eq by (simp add: broken_pipe_def paired_def io_simps eval_nat_numeral)
  have 5: "\<not> pair_torn_down (snd ?r) 1 2"
    using 3 by (simp add: pair_torn_down_def)
  from 1 2 3 4 5 show ?thesis by simp
qed

text \<open>
  A reset while reading from the client tears the pair down.
\<close>

theorem read_errors_tear_down_witness:
  "sock_recv resetting paired 1 4096
     = (Inl (Exn ConnectionResetError ''[Errno 104] Connection reset by peer''), tick paired)
   \<and> is_Exception (Exn ConnectionResetError ''[Errno 104] Connection reset by peer'')
   \<and> fst (read_from_client 3 resetting paired 1 2) = Returns ()
   \<and> pair_torn_down (snd (read_from_client 3 resetting paired 1 2)) 1 2
   \<and> logged (snd (read_from_client 3 resetting paired 1 2)) = [''Client connection lost'']"
proof -
  let ?e = "Exn ConnectionResetError ''[Errno 104] Connection reset by peer''"
  let ?r = "read_from_client 3 resetting paired 1 2"
  let ?r2 = "read_from_server 3 resetting paired 1 2"
  have recv: "sock_recv resetting paired 1 4096 = (Inl ?e, tick paired)"
    by (simp add: resetting_def paired_def quiet_env_def world0_def sock_recv_def)
  have ex: "is_Exception ?e" by (simp add: is_Exception_def)
  have run: "?r = (fst ?r, snd ?r)" and run2: "?r2 = (fst ?r2, snd ?r2)" by simp_all
  from read_errors_tear_down [OF run run2, THEN conjunct1, rule_format, of ?e "tick paired"]
  have "fst ?r = Returns () \<and> pair_torn_down (snd ?r) 1 2
     \<and> logged (snd ?r) = logged paired @
          [read_error_line ''Client connection lost'' ''Error reading from client: '' ?e]"
    using recv ex by blast
  moreover have "logged paired = []" by (simp add: paired_def world0_def)
  ultimately show ?thesis using recv ex by (simp add: read_error_line_def)
qed

section \<open>The acceptor\<close>

lemma sock_accept_Inl:
  assumes "sock_accept env w s = (Inl e, w1)"
  shows "w1 = w \<or> w1 = tick w"
proof (cases "s \<in> closed w")
  case True
  with assms show ?thesis by (simp add: sock_accept_def)
next
  case False
  with assms show ?thesis
    by (cases "accept_result env (clock w)") (auto simp: sock_accept_def)
qed

lemma sock_accept_Inr:
  assumes "sock_accept env w s = (Inr (client, a), w1)"
  shows "w1 = (tick w)\<lparr>opened := insert client (opened w)\<rparr>"
proof (cases "s \<in> closed w")
  case True
  with assms show ?thesis by (simp add: sock_accept_def)
next
  case False
  with assms show ?thesis
    by (cases "accept_result env (clock w)") (auto simp: sock_accept_def)
qed

lemma create_connection_Inl:
  assumes "create_connection env w p = (Inl e, w2)"
  shows "w2 = tick w"
  using assms by (cases "connect_result env (clock w) p") (simp_all add: create_connection_def)

lemma catch_print_simps:
  "catch_print line (Returns u, w) = (Returns u, w)"
  "catch_print line (Unfinished, w) = (Unfinished, w)"
  "catch_print line (Raises e, w) =
     (if is_Exception e then (Returns (), print (line @ exn_msg e) w) else (Raises e, w))"
  by (simp_all add: catch_print_def)

lemma return_from_simps:
  "return_from env locals (Returns u, w) = (Returns u, foldl (drop_local env) w locals)"
  "return_from env locals (Unfinished, w) = (Unfinished, w)"
  "return_from env locals (Raises e, w) = (Raises e, w)"
  by (simp_all add: return_from_def)

lemma close_opened [simp]: "opened (snd (sock_close env w s)) = opened w"
  by (simp add: sock_close_def Let_def split: option.splits)

lemma drop_local_fields [simp]:
  "registered (drop_local env w s) = registered w"
  "opened (drop_local env w s) = opened w"
  "logged (drop_local env w s) = logged w"
  "poll_ticks (drop_local env w s) = poll_ticks w"
  "closed (drop_local env w s) = (if referenced w s then closed w else insert s (closed w))"
  by (simp_all add: drop_local_def)

lemma referenced_fields [simp]:
  "referenced (tick w) s = referenced w s"
  "referenced (print l w) s = referenced w s"
  "referenced (w\<lparr>opened := x\<rparr>) s = referenced w s"
  by (simp_all add: referenced_def)

lemma accept_connection_accept_fails:
  assumes "sock_accept env w s = (Inl e, w1)" "is_Exception e"
  shows "accept_connection env w s =
           (Returns (), print (''Error accepting connection: '' @ exn_msg e) w1)"
  using assms by (simp add: accept_connection_def catch_print_simps return_from_simps)

lemma accept_connection_connect_fails:
  assumes "sock_accept env w s = (Inr (client, a), w1)"
    and "create_connection env (print (''New connection from '' @ a) w1) (port w1) = (Inl e, w2)"
    and "is_Exception e"
  shows "accept_connection env w s =
           (Returns (),
            drop_local env (print (''Error accepting connection: '' @ exn_msg e) w2) client)"
  using assms by (simp add: accept_connection_def catch_print_simps return_from_simps)

text \<open>
  \<^bold>\<open>C2\<close>. When \<open>accept\<close> raises, the acceptor has opened nothing; it prints the error,
  returns normally, and registrations and sockets are what they were. When the client was
  accepted and the upstream connect raises (nothing listens on the target port), the
  acceptor prints the error and returns normally with nothing registered, and the accepted
  client socket, the only socket the call opened, is closed: no call of \<open>close\<close> is written
  in the acceptor, the socket is closed when the local that holds it is dropped at the
  return. The accepted socket is a new object: no registration refers to it.
\<close>

theorem accept_failure_closes_client:
  assumes "accept_connection env w s = (r, w')"
  shows "(\<forall>e w1. sock_accept env w s = (Inl e, w1) \<and> is_Exception e \<longrightarrow>
            r = Returns () \<and> registered w' = registered w \<and> opened w' = opened w
            \<and> closed w' = closed w
            \<and> logged w' = logged w @ [''Error accepting connection: '' @ exn_msg e])
       \<and> (\<forall>client a w1 e w2.
            sock_accept env w s = (Inr (client, a), w1)
            \<and> create_connection env (print (''New connection from '' @ a) w1) (port w1) = (Inl e, w2)
            \<and> is_Exception e \<and> \<not> referenced w client \<longrightarrow>
            r = Returns () \<and> registered w' = registered w
            \<and> opened w' = insert client (opened w)
            \<and> closed w' = insert client (closed w)
            \<and> logged w' = logged w @
                 [''New connection from '' @ a, ''Error accepting connection: '' @ exn_msg e])"
proof (intro conjI allI impI)
  fix e w1
  assume "sock_accept env w s = (Inl e, w1) \<and> is_Exception e"
  then have acc: "sock_accept env w s = (Inl e, w1)" and ex: "is_Exception e" by simp_all
  have eq: "(r, w') = (Returns (), print (''Error accepting connection: '' @ exn_msg e) w1)"
    using accept_connection_accept_fails [OF acc ex] assms by simp
  from eq show "r = Returns ()" by simp
  from eq sock_accept_Inl [OF acc] show "registered w' = registered w" by auto
  from eq sock_accept_Inl [OF acc] show "opened w' = opened w" by auto
  from eq sock_accept_Inl [OF acc] show "closed w' = closed w" by auto
  from eq sock_accept_Inl [OF acc]
  show "logged w' = logged w @ [''Error accepting connection: '' @ exn_msg e]" by auto
next
  fix client a w1 e w2
  assume "sock_accept env w s = (Inr (client, a), w1)
    \<and> create_connection env (print (''New connection from '' @ a) w1) (port w1) = (Inl e, w2)
    \<and> is_Exception e \<and> \<not> referenced w client"
  then have acc: "sock_accept env w s = (Inr (client, a), w1)"
    and con: "create_connection env (print (''New connection from '' @ a) w1) (port w1) = (Inl e, w2)"
    and ex: "is_Exception e" and new: "\<not> referenced w client" by simp_all
  let ?w3 = "print (''Error accepting connection: '' @ exn_msg e) w2"
  have eq: "(r, w') = (Returns (), drop_local env ?w3 client)"
    using accept_connection_connect_fails [OF acc con ex] assms by simp
  have w1: "w1 = (tick w)\<lparr>opened := insert client (opened w)\<rparr>"
    by (rule sock_accept_Inr [OF acc])
  have w2: "w2 = tick (print (''New connection from '' @ a) w1)"
    by (rule create_connection_Inl [OF con])
  have unref: "\<not> referenced ?w3 client"
    using new by (simp add: w1 w2)
  from eq show "r = Returns ()" by simp
  from eq w1 w2 show "registered w' = registered w" by simp
  from eq w1 w2 show "opened w' = insert client (opened w)" by simp
  from eq unref have "closed w' = insert client (closed ?w3)" by simp
  then show "closed w' = insert client (closed w)" by (simp add: w1 w2)
  from eq w1 w2 show "logged w' = logged w @
      [''New connection from '' @ a, ''Error accepting connection: '' @ exn_msg e]" by simp
qed

text \<open>
  Nothing listens on the target port: the accepted client socket 5 is closed when the
  acceptor returns, and only the listener is registered.
\<close>

theorem accept_failure_closes_client_witness:
  "sock_accept refusing listening 1
     = (Inr (5, ''client''), (tick listening)\<lparr>opened := insert 5 (opened listening)\<rparr>)
   \<and> is_Exception (Exn ConnectionRefusedError ''[Errno 111] Connection refused'')
   \<and> \<not> referenced listening 5
   \<and> fst (accept_connection refusing listening 1) = Returns ()
   \<and> registered (snd (accept_connection refusing listening 1)) = [(1, AcceptConnection)]
   \<and> opened (snd (accept_connection refusing listening 1)) = {5, 1}
   \<and> closed (snd (accept_connection refusing listening 1)) = {5}
   \<and> logged (snd (accept_connection refusing listening 1))
       = [''New connection from client'',
          ''Error accepting connection: [Errno 111] Connection refused'']"
proof -
  let ?e = "Exn ConnectionRefusedError ''[Errno 111] Connection refused''"
  let ?w1 = "(tick listening)\<lparr>opened := insert 5 (opened listening)\<rparr>"
  let ?r = "accept_connection refusing listening 1"
  have acc: "sock_accept refusing listening 1 = (Inr (5, ''client''), ?w1)"
    by (simp add: refusing_def listening_def quiet_env_def world0_def sock_accept_def)
  have con: "create_connection refusing (print (''New connection from '' @ ''client'') ?w1) (port ?w1)
      = (Inl ?e, tick (print (''New connection from '' @ ''client'') ?w1))"
    by (simp add: refusing_def quiet_env_def create_connection_def)
  have ex: "is_Exception ?e" by (simp add: is_Exception_def)
  have new: "\<not> referenced listening 5"
    by (simp add: referenced_def listening_def world0_def)
  have run: "?r = (fst ?r, snd ?r)" by simp
  from accept_failure_closes_client [OF run, THEN conjunct2, rule_format,
      of 5 "''client''" ?w1 ?e "tick (print (''New connection from '' @ ''client'') ?w1)"]
  have "fst ?r = Returns () \<and> registered (snd ?r) = registered listening
      \<and> opened (snd ?r) = insert 5 (opened listening)
      \<and> closed (snd ?r) = insert 5 (closed listening)
      \<and> logged (snd ?r) = logged listening @
           [''New connection from '' @ ''client'', ''Error accepting connection: '' @ exn_msg ?e]"
    using acc con ex new by blast
  moreover have "registered listening = [(1, AcceptConnection)]" "opened listening = {1}"
    "closed listening = {}" "logged listening = []"
    by (simp_all add: listening_def world0_def)
  ultimately show ?thesis using acc ex new by simp
qed

section \<open>Polls\<close>

lemma and_then_polls:
  assumes "poll_ticks (snd r) = p"
    and "\<And>x w. poll_ticks w = p \<Longrightarrow> poll_ticks (snd (f x w)) = p"
  shows "poll_ticks (snd (and_then r f)) = p"
proof (cases r)
  case (Pair o1 w1)
  with assms show ?thesis by (cases o1) simp_all
qed

lemma lift_polls [simp]: "poll_ticks (snd (lift r)) = poll_ticks (snd r)"
proof (cases r)
  case (Pair x w)
  then show ?thesis by (cases x) (simp_all add: lift_def)
qed

lemma sock_recv_polls [simp]: "poll_ticks (snd (sock_recv env w s n)) = poll_ticks w"
  using sock_recv_fields(5) [of env w s n "fst (sock_recv env w s n)" "snd (sock_recv env w s n)"]
  by simp

lemma sock_accept_polls [simp]: "poll_ticks (snd (sock_accept env w s)) = poll_ticks w"
proof (cases "s \<in> closed w")
  case True
  then show ?thesis by (simp add: sock_accept_def)
next
  case False
  then show ?thesis
    by (cases "accept_result env (clock w)") (auto simp: sock_accept_def)
qed

lemma create_connection_polls [simp]:
  "poll_ticks (snd (create_connection env w p)) = poll_ticks w"
  by (cases "connect_result env (clock w) p") (simp_all add: create_connection_def)

lemma sel_register_polls [simp]: "poll_ticks (snd (sel_register w s cb)) = poll_ticks w"
  by (simp add: sel_register_def)

lemma safe_send_polls [simp]: "poll_ticks (snd (safe_send fuel env w conn msg)) = poll_ticks w"
  using safe_send_frame [of fuel env w conn msg "fst (safe_send fuel env w conn msg)"
      "snd (safe_send fuel env w conn msg)"] by simp

lemma close_connection_polls [simp]:
  "poll_ticks (snd (close_connection env w client server)) = poll_ticks w"
  by (simp add: close_connection_eq)

lemma handler_except_polls [simp]:
  "poll_ticks (snd (handler_except lost failed env client server r)) = poll_ticks (snd r)"
proof (cases r)
  case (Pair o1 w1)
  then show ?thesis by (cases o1) (simp_all add: handler_except_simps)
qed

lemma catch_print_polls [simp]: "poll_ticks (snd (catch_print line r)) = poll_ticks (snd r)"
proof (cases r)
  case (Pair o1 w1)
  then show ?thesis by (cases o1) (simp_all add: catch_print_def)
qed

lemma return_from_polls [simp]:
  "poll_ticks (snd (return_from env locals r)) = poll_ticks (snd r)"
proof (cases r)
  case (Pair o1 w1)
  have "poll_ticks (foldl (drop_local env) w locals) = poll_ticks w" for w
    by (induction locals arbitrary: w) simp_all
  with Pair show ?thesis by (cases o1) (simp_all add: return_from_simps)
qed

lemma accept_connection_polls [simp]:
  "poll_ticks (snd (accept_connection env w s)) = poll_ticks w"
proof (cases "sock_accept env w s")
  case (Pair x w1)
  have w1: "poll_ticks w1 = poll_ticks w"
    using sock_accept_polls [of env w s] Pair by simp
  show ?thesis
  proof (cases x)
    case (Inl e)
    with Pair w1 show ?thesis by (simp add: accept_connection_def)
  next
    case (Inr ca)
    obtain client a where ca: "ca = (client, a)" by (cases ca)
    let ?w = "print (''New connection from '' @ a) w1"
    obtain y w2 where cc: "create_connection env ?w (port w1) = (y, w2)"
      by (cases "create_connection env ?w (port w1)")
    have "poll_ticks (snd (create_connection env ?w (port w1))) = poll_ticks ?w"
      by (rule create_connection_polls)
    then have "poll_ticks w2 = poll_ticks ?w"
      unfolding cc by simp
    then have w2: "poll_ticks w2 = poll_ticks w"
      using w1 by simp
    show ?thesis
    proof (cases y)
      case (Inl e)
      with Pair Inr ca cc w2 show ?thesis by (simp add: accept_connection_def)
    next
      case server: (Inr server)
      have "poll_ticks (snd (and_then (lift (sel_register w2 client (ReadFromClient client server)))
                       (\<lambda>u w3. lift (sel_register w3 server (ReadFromServer client server)))))
            = poll_ticks w2"
        by (intro and_then_polls) simp_all
      with Pair Inr ca cc server w2 show ?thesis by (simp add: accept_connection_def)
    qed
  qed
qed

lemma read_from_client_polls [simp]:
  "poll_ticks (snd (read_from_client fuel env w client server)) = poll_ticks w"
  unfolding read_from_client_def handler_except_polls
  by (intro and_then_polls) (simp_all add: Let_def)

lemma read_from_server_polls [simp]:
  "poll_ticks (snd (read_from_server fuel env w client server)) = poll_ticks w"
  unfolding read_from_server_def handler_except_polls
  by (intro and_then_polls) simp_all

lemma dispatch_polls [simp]: "poll_ticks (snd (dispatch fuel env w key)) = poll_ticks w"
  by (cases "snd key") (simp_all add: dispatch_def)

lemma for_events_polls [simp]: "poll_ticks (snd (for_events fuel env w keys)) = poll_ticks w"
proof (induction keys arbitrary: w)
  case Nil
  then show ?case by simp
next
  case (Cons key keys)
  show ?case
    unfolding for_events.simps
    by (intro and_then_polls) (simp_all add: Cons.IH)
qed

section \<open>The loop\<close>

lemma see_stop_fields:
  "poll_ticks (see_stop env w) = poll_ticks w"
  "clock (see_stop env w) = clock w"
  "registered (see_stop env w) = registered w"
  "running (see_stop env w) \<longleftrightarrow> running w \<and> (\<forall>t. stop_time env = Some t \<longrightarrow> clock w < t)"
  by (cases "stop_time env"; auto simp: see_stop_def)+

lemma sel_select_polls: "poll_ticks (snd (sel_select env w)) = poll_ticks w @ [clock w]"
  by (cases "select_result env (clock w)") (simp_all add: sel_select_def Let_def)

lemma loop_body_polls: "poll_ticks (snd (loop_body fuel env w0)) = poll_ticks w0 @ [clock w0]"
  unfolding loop_body_def
  by (intro and_then_polls) (simp_all add: sel_select_polls)

lemma event_loop_Suc:
  "event_loop (Suc fuel) env w =
     (if \<not> running (see_stop env w) then (Returns (), see_stop env w)
      else case loop_body fuel env (see_stop env w) of
             (Returns u, w2) \<Rightarrow> event_loop fuel env w2
           | (Raises e, w2) \<Rightarrow>
               if cls e = KeyboardInterrupt
               then (Returns (), (print (CHR 0x0A # ''Shutting down...'') w2)\<lparr>running := False\<rparr>)
               else if is_Exception e
               then event_loop fuel env (print (''Error in select loop: '' @ exn_msg e) w2)
               else (Raises e, w2)
           | (Unfinished, w2) \<Rightarrow> (Unfinished, w2))"
  by (simp add: loop_body_def Let_def)

lemma polled_refl: "poll_ticks w' = poll_ticks w \<Longrightarrow> polled_before_stop env w w'"
  by (simp add: polled_before_stop_def)

lemma polled_step:
  assumes "running w" "\<forall>t. stop_time env = Some t \<longrightarrow> clock w < t"
    and "poll_ticks w2 = poll_ticks w @ [clock w]"
    and "polled_before_stop env w2 w'"
  shows "polled_before_stop env w w'"
proof -
  from assms(4) obtain new where n: "poll_ticks w' = poll_ticks w2 @ new"
    "\<forall>c\<in>set new. \<forall>t. stop_time env = Some t \<longrightarrow> c < t"
    unfolding polled_before_stop_def by blast
  have "poll_ticks w' = poll_ticks w @ (clock w # new)"
    using n(1) assms(3) by simp
  moreover have "\<forall>c\<in>set (clock w # new). \<forall>t. stop_time env = Some t \<longrightarrow> c < t"
    using n(2) assms(2) by simp
  ultimately show ?thesis
    unfolding polled_before_stop_def using assms(1) by blast
qed

lemma event_loop_polls:
  "event_loop fuel env w = (r, w') \<Longrightarrow> polled_before_stop env w w'"
proof (induction fuel arbitrary: w)
  case 0
  then show ?case by (simp add: polled_refl)
next
  case (Suc fuel)
  let ?w0 = "see_stop env w"
  show ?case
  proof (cases "running ?w0")
    case False
    with Suc.prems have "w' = ?w0" by (simp del: event_loop.simps add: event_loop_Suc)
    then show ?thesis by (simp add: polled_refl see_stop_fields)
  next
    case True
    then have run: "running w" and bef: "\<forall>t. stop_time env = Some t \<longrightarrow> clock w < t"
      by (simp_all add: see_stop_fields)
    obtain r2 w2 where b: "loop_body fuel env ?w0 = (r2, w2)"
      by (cases "loop_body fuel env ?w0")
    have p2: "poll_ticks w2 = poll_ticks w @ [clock w]"
      using loop_body_polls [of fuel env ?w0] b by (simp add: see_stop_fields)
    show ?thesis
    proof (cases r2)
      case (Returns u)
      with Suc.prems True b have "event_loop fuel env w2 = (r, w')"
        by (simp del: event_loop.simps add: event_loop_Suc)
      from Suc.IH [OF this] show ?thesis by (rule polled_step [OF run bef p2])
    next
      case Unfinished
      with Suc.prems True b have "w' = w2" by (simp del: event_loop.simps add: event_loop_Suc)
      then show ?thesis using polled_step [OF run bef p2 polled_refl] by simp
    next
      case (Raises e)
      show ?thesis
      proof (cases "cls e = KeyboardInterrupt")
        case k: True
        with Raises Suc.prems True b
        have "w' = (print (CHR 0x0A # ''Shutting down...'') w2)\<lparr>running := False\<rparr>"
          by (simp del: event_loop.simps add: event_loop_Suc)
        then have "poll_ticks w' = poll_ticks w2" by simp
        then show ?thesis using polled_step [OF run bef p2 polled_refl] by simp
      next
        case nk: False
        then have ex: "is_Exception e" by (simp add: is_Exception_def)
        let ?w3 = "print (''Error in select loop: '' @ exn_msg e) w2"
        from Raises Suc.prems True b nk ex have "event_loop fuel env ?w3 = (r, w')"
          by (simp del: event_loop.simps add: event_loop_Suc)
        from Suc.IH [OF this] have "polled_before_stop env ?w3 w'" .
        moreover have "poll_ticks ?w3 = poll_ticks w @ [clock w]" using p2 by simp
        ultimately show ?thesis by (intro polled_step [OF run bef]) simp_all
      qed
    qed
  qed
qed

lemma event_loop_after_stop:
  assumes "stop_time env = Some t" "t \<le> clock w"
  shows "event_loop (Suc fuel) env w = (Returns (), w\<lparr>running := False\<rparr>)"
  using assms by (simp del: event_loop.simps add: event_loop_Suc see_stop_def)

section \<open>run\<close>

lemma polled_cong:
  "poll_ticks w1 = poll_ticks w \<Longrightarrow> running w1 = running w \<Longrightarrow>
     polled_before_stop env w1 w' \<Longrightarrow> polled_before_stop env w w'"
  by (simp add: polled_before_stop_def)

lemma polled_then:
  "polled_before_stop env w w3 \<Longrightarrow> poll_ticks w4 = poll_ticks w3 \<Longrightarrow>
     polled_before_stop env w w4"
  by (simp add: polled_before_stop_def)

lemma open_listener_fields:
  "poll_ticks (snd (open_listener env w)) = poll_ticks w"
  "running (snd (open_listener env w)) = running w"
  by (cases "socket_result env (clock w)"; cases "addr w";
      cases "bind_result env (Suc (clock w)) (projr (socket_result env (clock w)))";
      simp add: open_listener_def Let_def)+

lemma sel_register_running [simp]: "running (snd (sel_register w s cb)) = running w"
  by (simp add: sel_register_def)

lemma run_body_polls:
  "polled_before_stop env w (snd (run_body fuel env w))"
proof -
  let ?wi = "w\<lparr>registered := [], sel_closed := False\<rparr>"
  let ?inner = "and_then (lift (open_listener env ?wi))
             (\<lambda>ipv6side w1.
           and_then (lift (sel_register w1 ipv6side AcceptConnection)) (\<lambda>u w2.
           event_loop fuel env
             (print (''Proxy server started successfully on '' @ addr_text (addr w2)) w2)))"
  have rb: "run_body fuel env w = catch_print ''Error starting proxy server: '' ?inner"
    by (simp add: run_body_def catch_print_def)
  obtain x w1 where ol: "open_listener env ?wi = (x, w1)" by (cases "open_listener env ?wi")
  have w1: "poll_ticks w1 = poll_ticks w" "running w1 = running w"
    using open_listener_fields [of env ?wi] ol by simp_all
  have "polled_before_stop env w (snd ?inner)"
  proof (cases x)
    case (Inl e)
    with ol w1 show ?thesis by (simp add: lift_def polled_refl)
  next
    case (Inr l)
    obtain y w2 where sr: "sel_register w1 l AcceptConnection = (y, w2)"
      by (cases "sel_register w1 l AcceptConnection")
    have w2: "poll_ticks w2 = poll_ticks w" "running w2 = running w"
      using sel_register_polls [of w1 l AcceptConnection]
        sel_register_running [of w1 l AcceptConnection] sr w1 by simp_all
    show ?thesis
    proof (cases y)
      case e: (Inl e)
      with Inr ol sr w2 show ?thesis by (simp add: lift_def polled_refl)
    next
      case u: (Inr u)
      let ?w3 = "print (''Proxy server started successfully on '' @ addr_text (addr w2)) w2"
      obtain r3 w3 where el: "event_loop fuel env ?w3 = (r3, w3)"
        by (cases "event_loop fuel env ?w3")
      have "polled_before_stop env ?w3 w3" by (rule event_loop_polls [OF el])
      then have "polled_before_stop env w w3"
        by (rule polled_cong [rotated 2]) (simp_all add: w2)
      with Inr u ol sr el show ?thesis by (simp add: lift_def)
    qed
  qed
  then show ?thesis
    unfolding rb by (rule polled_then) simp
qed

lemma close_all_fields:
  "closed (foldl (\<lambda>w1 key. snd (sock_close env w1 (fst key))) w keys) = closed w \<union> fst ` set keys"
  "poll_ticks (foldl (\<lambda>w1 key. snd (sock_close env w1 (fst key))) w keys) = poll_ticks w"
  by (induction keys arbitrary: w) auto

lemma cleanup_fields:
  "closed (cleanup env w) = closed w \<union> fst ` set (registered w)"
  "poll_ticks (cleanup env w) = poll_ticks w"
  "registered (cleanup env w) = []"
  "sel_closed (cleanup env w)"
  by (simp_all add: cleanup_def sel_close_def close_all_fields)

lemma run_cases:
  obtains (going) w1 where "run_body fuel env w = (Unfinished, w1)"
      "run fuel env w = (Unfinished, w1)"
  | (finished) r w1 where "run_body fuel env w = (r, w1)" "r \<noteq> Unfinished"
      "run fuel env w = (r, cleanup env w1)"
proof (cases "run_body fuel env w")
  case (Pair r w1)
  show ?thesis
  proof (cases "r = Unfinished")
    case True
    with Pair show ?thesis by (intro going [of w1]) (simp_all add: run_def)
  next
    case False
    with Pair have "run fuel env w = (r, cleanup env w1)"
      by (cases r) (simp_all add: run_def)
    with Pair False show ?thesis by (intro finished [of r w1])
  qed
qed

text \<open>
  \<^bold>\<open>C9\<close>. Every call of \<open>select\<close> that \<open>run\<close> makes happens at a clock value
  before the one at which the flag is cleared, and none at all when the flag is clear from
  the start; a loop that looks at the flag at or after that time returns at once, without a
  poll. When \<open>run\<close> is over (normally or with an exception it lets through), every
  socket that was registered when the \<open>try\<close> block was left is closed, and the selector is
  closed with an empty map.
\<close>

theorem run_stops_polling_and_cleans_up:
  assumes "run fuel env w = (r, w')"
  shows "(\<exists>new. poll_ticks w' = poll_ticks w @ new
            \<and> (\<forall>c\<in>set new. \<forall>t. stop_time env = Some t \<longrightarrow> c < t)
            \<and> (\<not> running w \<longrightarrow> new = []))
       \<and> (\<forall>t n w2. stop_time env = Some t \<and> t \<le> clock w2 \<longrightarrow>
             event_loop (Suc n) env w2 = (Returns (), w2\<lparr>running := False\<rparr>))
       \<and> (r \<noteq> Unfinished \<longrightarrow>
             sel_closed w' \<and> registered w' = []
             \<and> fst ` set (registered (snd (run_body fuel env w))) \<subseteq> closed w')"
proof (intro conjI)
  have "polled_before_stop env w w'"
  proof (cases rule: run_cases [of fuel env w])
    case (going w1)
    with assms run_body_polls [of env w fuel] show ?thesis by simp
  next
    case (finished r1 w1)
    with assms have "w' = cleanup env w1" by simp
    with finished(1) run_body_polls [of env w fuel] show ?thesis
      by (auto intro: polled_then simp: cleanup_fields)
  qed
  then show "\<exists>new. poll_ticks w' = poll_ticks w @ new
            \<and> (\<forall>c\<in>set new. \<forall>t. stop_time env = Some t \<longrightarrow> c < t)
            \<and> (\<not> running w \<longrightarrow> new = [])"
    by (simp add: polled_before_stop_def)
  show "\<forall>t n w2. stop_time env = Some t \<and> t \<le> clock w2 \<longrightarrow>
             event_loop (Suc n) env w2 = (Returns (), w2\<lparr>running := False\<rparr>)"
    using event_loop_after_stop by blast
  show "r \<noteq> Unfinished \<longrightarrow>
             sel_closed w' \<and> registered w' = []
             \<and> fst ` set (registered (snd (run_body fuel env w))) \<subseteq> closed w'"
  proof (cases rule: run_cases [of fuel env w])
    case (going w1)
    with assms show ?thesis by simp
  next
    case (finished r1 w1)
    with assms have "w' = cleanup env w1" by simp
    with finished(1) show ?thesis by (simp add: cleanup_fields)
  qed
qed

lemmas run_simps = run_def run_body_def cleanup_def sel_close_def open_listener_def
  see_stop_def dispatch_def accept_connection_def catch_print_def return_from_def
  drop_local_def referenced_def and_then_def serving_def env_simps
  List.map_filter_def

text \<open>
  A run that accepts one connection before it is stopped: one poll, three sockets closed.
\<close>

theorem run_stops_polling_and_cleans_up_witness:
  "fst (run 3 serving world0) = Returns ()
   \<and> poll_ticks (snd (run 3 serving world0)) = [2]
   \<and> registered (snd (run_body 3 serving world0))
       = [(1, AcceptConnection), (2, ReadFromClient 2 3), (3, ReadFromServer 2 3)]
   \<and> closed (snd (run 3 serving world0)) = {3, 2, 1}
   \<and> sel_closed (snd (run 3 serving world0))
   \<and> registered (snd (run 3 serving world0)) = []"
proof -
  let ?r = "run 3 serving world0"
  have run: "?r = (fst ?r, snd ?r)" by simp
  have 1: "fst ?r = Returns ()"
    by (simp add: run_simps eval_nat_numeral)
  have 2: "poll_ticks (snd ?r) = [2]"
    by (simp add: run_simps eval_nat_numeral)
  have 3: "registered (snd (run_body 3 serving world0))
       = [(1, AcceptConnection), (2, ReadFromClient 2 3), (3, ReadFromServer 2 3)]"
    by (simp add: run_simps eval_nat_numeral)
  have 4: "closed (snd ?r) = {3, 2, 1}"
    by (simp add: run_simps eval_nat_numeral)
  from run_stops_polling_and_cleans_up [OF run] 1
  have "sel_closed (snd ?r) \<and> registered (snd ?r) = []" by simp
  with 1 2 3 4 show ?thesis by simp
qed

end
